theory Spec2Isabelle
  imports Complex_Main
begin

section \<open>The sandbox repository manager (lib/staging/codeartifact.ts)\<close>

text \<open>
  The module drives one external collaborator, the artifact registry, through the
  \<^verbatim>\<open>AWS.CodeArtifact\<close> client. Every call is awaited, so the program is sequential:
  a call takes the world (the registry and the clock) and returns a result together
  with the world it leaves behind. A rejected promise is the value \<open>Inl e\<close>, where
  \<open>e\<close> carries the \<^verbatim>\<open>code\<close> and \<^verbatim>\<open>message\<close> the catch blocks read.
  Output to the console is not modelled, and neither is \<^verbatim>\<open>newRandom\<close>, which draws
  the sandbox name from \<^verbatim>\<open>Math.random\<close> and then does what \<^verbatim>\<open>newWithName\<close> does.
\<close>

subsection \<open>Data\<close>

record aws_error =
  code :: string
  message :: string

type_synonym ('w, 'a) io = "'w \<Rightarrow> (aws_error + 'a) \<times> 'w"

record tag =
  tag_key :: string
  tag_value :: string

text \<open>
  A repository summary of a \<^verbatim>\<open>listRepositories\<close> page. The client library declares
  every field optional; the sweep passes them on with \<^verbatim>\<open>!\<close>, which checks nothing
  when the program runs.
\<close>

record repository_summary =
  repo_name :: "string option"
  repo_arn :: "string option"
  repo_domainName :: "string option"

record repositories_page =
  repositories :: "repository_summary list option"
  nextToken :: "string option"

record create_repository_request =
  cr_domain :: string
  cr_repository :: string
  cr_description :: "string option"
  cr_upstreams :: "string list option"
  cr_tags :: "tag list option"

text \<open>The value of a JavaScript number, as far as \<^verbatim>\<open><\<close> observes it.\<close>

datatype jsnum = NaN | NegInfinity | Finite rat | PosInfinity

text \<open>\<^verbatim>\<open>x < n\<close> for a number \<open>x\<close> and an integral time \<open>n\<close>: false when \<open>x\<close> is NaN.\<close>

fun js_less :: "jsnum \<Rightarrow> int \<Rightarrow> bool" where
  "js_less NaN n = False"
| "js_less NegInfinity n = True"
| "js_less (Finite q) n = (q < of_int n)"
| "js_less PosInfinity n = False"

text \<open>
  What the module takes from outside: the methods of the registry client it calls, the
  clock (\<^verbatim>\<open>Date.now()\<close>, epoch milliseconds, read from the world) and \<^verbatim>\<open>sleep\<close>
  (imported from \<^verbatim>\<open>../aws\<close>). The world moves at the awaited calls only.
\<close>

record 'w env =
  describeDomain :: "string \<Rightarrow> ('w, unit) io"
  createDomain :: "string \<Rightarrow> tag list \<Rightarrow> ('w, unit) io"
  describeRepository :: "string \<Rightarrow> string \<Rightarrow> ('w, unit) io"
  createRepository :: "create_repository_request \<Rightarrow> ('w, unit) io"
  associateExternalConnection :: "string \<Rightarrow> string \<Rightarrow> string \<Rightarrow> ('w, unit) io"
  deleteRepository :: "string option \<Rightarrow> string option \<Rightarrow> ('w, unit) io"
  getAuthorizationToken :: "string \<Rightarrow> nat \<Rightarrow> ('w, string option) io"
  getRepositoryEndpoint :: "string \<Rightarrow> string \<Rightarrow> string \<Rightarrow> ('w, string option) io"
  listRepositories :: "string option \<Rightarrow> ('w, repositories_page) io"
  listTagsForResource :: "string option \<Rightarrow> ('w, tag list option) io"
  dateNow :: "'w \<Rightarrow> int"
  sleep :: "nat \<Rightarrow> 'w \<Rightarrow> 'w"

subsection \<open>The conversion \<^verbatim>\<open>Number(string)\<close>\<close>

text \<open>
  The sweep reads an expiry with \<^verbatim>\<open>Number(t.value)\<close>, the conversion of the language
  (ECMAScript, StringToNumber). White space and line terminators around the text are
  dropped; what is left is the empty text, which converts to 0, or a numeric literal, or
  else the result is NaN. A string is a list of code units below 256 here, of which 9 to
  13, 32 and 160 are white space or line terminators.
\<close>

definition strWhiteSpaceChar :: "char \<Rightarrow> bool" where
  "strWhiteSpaceChar c = ((of_char c :: nat) \<in> {9, 10, 11, 12, 13, 32, 160})"

definition trimString :: "string \<Rightarrow> string" where
  "trimString s = rev (dropWhile strWhiteSpaceChar (rev (dropWhile strWhiteSpaceChar s)))"

text \<open>The value of a digit, decimal or hexadecimal, and of a row of digits in a base.\<close>

definition digitValue :: "char \<Rightarrow> nat option" where
  "digitValue c = (let n = (of_char c :: nat) in
     if 48 \<le> n \<and> n \<le> 57 then Some (n - 48)
     else if 97 \<le> n \<and> n \<le> 102 then Some (n - 87)
     else if 65 \<le> n \<and> n \<le> 70 then Some (n - 55)
     else None)"

fun digitsValue :: "nat \<Rightarrow> nat \<Rightarrow> string \<Rightarrow> nat option" where
  "digitsValue base acc [] = Some acc"
| "digitsValue base acc (c # cs) = (case digitValue c of
     None \<Rightarrow> None
   | Some d \<Rightarrow> if d < base then digitsValue base (base * acc + d) cs else None)"

definition digits :: "nat \<Rightarrow> string \<Rightarrow> nat option" where
  "digits base s = (if s = [] then None else digitsValue base 0 s)"

text \<open>\<^verbatim>\<open>SignedInteger\<close>, the text after the exponent indicator \<^verbatim>\<open>e\<close> or \<^verbatim>\<open>E\<close>.\<close>

definition signedInteger :: "string \<Rightarrow> int option" where
  "signedInteger s = (case s of
     [] \<Rightarrow> None
   | c # cs \<Rightarrow>
       if c = CHR ''+'' then map_option int (digits 10 cs)
       else if c = CHR ''-'' then map_option (\<lambda>n. - int n) (digits 10 cs)
       else map_option int (digits 10 s))"

definition exponentIndicator :: "char \<Rightarrow> bool" where
  "exponentIndicator c = (c = CHR ''e'' \<or> c = CHR ''E'')"

text \<open>
  \<^verbatim>\<open>StrUnsignedDecimalLiteral\<close> other than \<^verbatim>\<open>Infinity\<close>: digits with at most one
  point, with a digit before or after it, and an optional exponent part. The result is
  the mathematical value as a fraction of two natural numbers.
\<close>

definition strUnsignedDecimalLiteral :: "string \<Rightarrow> (nat \<times> nat) option" where
  "strUnsignedDecimalLiteral s =
     (let mantissa = takeWhile (\<lambda>c. \<not> exponentIndicator c) s;
          exponent = dropWhile (\<lambda>c. \<not> exponentIndicator c) s;
          whole = takeWhile (\<lambda>c. c \<noteq> CHR ''.'') mantissa;
          fraction = tl (dropWhile (\<lambda>c. c \<noteq> CHR ''.'') mantissa)
      in if whole = [] \<and> fraction = [] then None
         else case (digitsValue 10 0 (whole @ fraction),
                    if exponent = [] then Some 0 else signedInteger (tl exponent)) of
             (Some m, Some k) \<Rightarrow>
               if int (length fraction) \<le> k
               then Some (m * 10 ^ nat (k - int (length fraction)), 1)
               else Some (m, 10 ^ nat (int (length fraction) - k))
           | _ \<Rightarrow> None)"

text \<open>\<^verbatim>\<open>NonDecimalIntegerLiteral\<close>: binary, octal or hexadecimal digits after the prefix.\<close>

definition nonDecimalIntegerLiteral :: "string \<Rightarrow> nat option" where
  "nonDecimalIntegerLiteral s = (case s of
     z # b # ds \<Rightarrow>
       if z \<noteq> CHR ''0'' then None
       else if b = CHR ''x'' \<or> b = CHR ''X'' then digits 16 ds
       else if b = CHR ''o'' \<or> b = CHR ''O'' then digits 8 ds
       else if b = CHR ''b'' \<or> b = CHR ''B'' then digits 2 ds
       else None
   | _ \<Rightarrow> None)"

text \<open>
  The Number value of the fraction \<open>p / q\<close>: the nearest double, ties to the even
  significand, and infinity from \<open>2\<^sup>1\<^sup>0\<^sup>2\<^sup>4\<close> on. \<open>e\<close> is the binary exponent of the
  fraction, \<open>u\<close> the exponent of the last place of its doubles (that of the subnormal
  numbers below \<open>2\<^sup>-\<^sup>1\<^sup>0\<^sup>2\<^sup>2\<close>), and \<open>m\<close> the fraction in units of the last place, rounded.
\<close>

fun bitLength :: "nat \<Rightarrow> nat" where
  "bitLength n = (if n = 0 then 0 else Suc (bitLength (n div 2)))"

declare bitLength.simps [simp del]

definition roundToDouble :: "bool \<Rightarrow> nat \<Rightarrow> nat \<Rightarrow> jsnum" where
  "roundToDouble negative p q =
     (if p = 0 then Finite 0
      else
        let e0 = int (bitLength p) - int (bitLength q);
            e = (if (if 0 \<le> e0 then q * 2 ^ nat e0 \<le> p else q \<le> p * 2 ^ nat (- e0))
                 then e0 else e0 - 1);
            u = max e (- 1022) - 52;
            num = (if u \<le> 0 then p * 2 ^ nat (- u) else p);
            den = (if u \<le> 0 then q else q * 2 ^ nat u);
            n = num div den;
            r = num mod den;
            m = (if 2 * r < den \<or> (2 * r = den \<and> even n) then n else n + 1)
        in if 0 \<le> u \<and> 2 ^ 1024 \<le> m * 2 ^ nat u
           then (if negative then NegInfinity else PosInfinity)
           else Finite ((if negative then - 1 else 1)
                  * (if u \<le> 0 then of_nat m / 2 ^ nat (- u) else of_nat m * 2 ^ nat u)))"

text \<open>\<^verbatim>\<open>StrDecimalLiteral\<close>: an optional sign, then \<^verbatim>\<open>Infinity\<close> or an unsigned literal.\<close>

definition strUnsignedLiteral :: "bool \<Rightarrow> string \<Rightarrow> jsnum option" where
  "strUnsignedLiteral negative s =
     (if s = ''Infinity'' then Some (if negative then NegInfinity else PosInfinity)
      else map_option (\<lambda>(p, q). roundToDouble negative p q) (strUnsignedDecimalLiteral s))"

definition strDecimalLiteral :: "string \<Rightarrow> jsnum option" where
  "strDecimalLiteral s = (case s of
     [] \<Rightarrow> None
   | c # cs \<Rightarrow>
       if c = CHR ''+'' then strUnsignedLiteral False cs
       else if c = CHR ''-'' then strUnsignedLiteral True cs
       else strUnsignedLiteral False s)"

definition Number :: "string \<Rightarrow> jsnum" where
  "Number str =
     (let s = trimString str
      in if s = [] then Finite 0
         else case nonDecimalIntegerLiteral s of
             Some n \<Rightarrow> roundToDouble False n 1
           | None \<Rightarrow> (case strDecimalLiteral s of Some x \<Rightarrow> x | None \<Rightarrow> NaN))"

subsection \<open>Constants and the instance\<close>

definition COLLECT_BY_TAG :: string where
  "COLLECT_BY_TAG = ''collect-by''"

definition REPO_LIFETIME_MS :: int where
  "REPO_LIFETIME_MS = 24 * 3600 * 1000"

definition DEFAULT_DOMAIN :: string where
  "DEFAULT_DOMAIN = ''test-cdk''"

definition RESOURCE_NOT_FOUND :: string where
  "RESOURCE_NOT_FOUND = ''ResourceNotFoundException''"

record test_repository =
  repositoryName :: string

definition npmUpstream :: "test_repository \<Rightarrow> string" where
  "npmUpstream this = ''npm-upstream''"

definition pypiUpstream :: "test_repository \<Rightarrow> string" where
  "pypiUpstream this = ''pypi-upstream''"

definition nugetUpstream :: "test_repository \<Rightarrow> string" where
  "nugetUpstream this = ''nuget-upstream''"

definition mavenUpstream :: "test_repository \<Rightarrow> string" where
  "mavenUpstream this = ''maven-upstream''"

definition domain :: "test_repository \<Rightarrow> string" where
  "domain this = DEFAULT_DOMAIN"

definition existing :: "string \<Rightarrow> test_repository" where
  "existing name = \<lparr>repositoryName = name\<rparr>"

subsection \<open>Sequencing\<close>

text \<open>\<^verbatim>\<open>await m; f\<close>: a rejection of \<open>m\<close> leaves the function at once.\<close>

definition bind_io :: "('w, 'a) io \<Rightarrow> ('a \<Rightarrow> ('w, 'b) io) \<Rightarrow> ('w, 'b) io" where
  "bind_io m f = (\<lambda>w. case m w of
     (Inl e, w') \<Rightarrow> (Inl e, w')
   | (Inr a, w') \<Rightarrow> f a w')"

definition return_io :: "'a \<Rightarrow> ('w, 'a) io" where
  "return_io a = (\<lambda>w. (Inr a, w))"

subsection \<open>The retry helper\<close>

text \<open>
  \<^verbatim>\<open>let attempts = 3; while (true) { try { return await block(); }
  catch (e) { if (attempts-- === 0) { throw e; } await sleep(500); } }\<close>
  The first argument is the value of \<^verbatim>\<open>attempts\<close> when the loop body starts: the
  test reads it before the decrement.
\<close>

fun retry_loop :: "'w env \<Rightarrow> ('w, 'a) io \<Rightarrow> nat \<Rightarrow> ('w, 'a) io" where
  "retry_loop env block 0 w = (case block w of
     (Inr a, w') \<Rightarrow> (Inr a, w')
   | (Inl e, w') \<Rightarrow> (Inl e, w'))"
| "retry_loop env block (Suc attempts) w = (case block w of
     (Inr a, w') \<Rightarrow> (Inr a, w')
   | (Inl e, w') \<Rightarrow> retry_loop env block attempts (sleep env 500 w'))"

definition retry :: "'w env \<Rightarrow> ('w, 'a) io \<Rightarrow> ('w, 'a) io" where
  "retry env block = retry_loop env block 3"

subsection \<open>Existence probes\<close>

text \<open>
  \<^verbatim>\<open>try { await describe...; return true; }
  catch (e) { if (e.code !== 'ResourceNotFoundException') { throw e; } return false; }\<close>
\<close>

definition domainExists :: "'w env \<Rightarrow> test_repository \<Rightarrow> ('w, bool) io" where
  "domainExists env this = (\<lambda>w. case describeDomain env (domain this) w of
     (Inr _, w') \<Rightarrow> (Inr True, w')
   | (Inl e, w') \<Rightarrow>
       if code e \<noteq> RESOURCE_NOT_FOUND then (Inl e, w') else (Inr False, w'))"

definition repositoryExists :: "'w env \<Rightarrow> test_repository \<Rightarrow> string \<Rightarrow> ('w, bool) io" where
  "repositoryExists env this name = (\<lambda>w. case describeRepository env (domain this) name w of
     (Inr _, w') \<Rightarrow> (Inr True, w')
   | (Inl e, w') \<Rightarrow>
       if code e \<noteq> RESOURCE_NOT_FOUND then (Inl e, w') else (Inr False, w'))"

subsection \<open>Provisioning\<close>

definition ensureDomain :: "'w env \<Rightarrow> test_repository \<Rightarrow> ('w, unit) io" where
  "ensureDomain env this = bind_io (domainExists env this) (\<lambda>ex.
     if ex then return_io ()
     else createDomain env (domain this) [\<lparr>tag_key = ''testing'', tag_value = ''true''\<rparr>])"

text \<open>
  The \<^verbatim>\<open>options\<close> argument of \<^verbatim>\<open>ensureRepository\<close>; \<^verbatim>\<open>tags\<close> is a
  \<^verbatim>\<open>Record<string, string>\<close>, read through \<^verbatim>\<open>Object.entries\<close>, so an association
  list in insertion order.
\<close>

record ensure_options =
  opt_description :: "string option"
  opt_external :: "string option"
  opt_upstreams :: "string list option"
  opt_tags :: "(string \<times> string) list option"

text \<open>
  \<^verbatim>\<open>if (options?.external)\<close> is a truthiness test: the empty string does not
  pass it. An upstream \<^verbatim>\<open>{ repositoryName }\<close> is modelled by the name it holds.
\<close>

definition ensureRepository ::
  "'w env \<Rightarrow> test_repository \<Rightarrow> string \<Rightarrow> ensure_options \<Rightarrow> ('w, unit) io" where
  "ensureRepository env this name options = bind_io (repositoryExists env this name) (\<lambda>ex.
     if ex then return_io ()
     else bind_io
       (createRepository env
          \<lparr>cr_domain = domain this,
           cr_repository = name,
           cr_description = opt_description options,
           cr_upstreams = opt_upstreams options,
           cr_tags = map_option (map (\<lambda>(k, v). \<lparr>tag_key = k, tag_value = v\<rparr>)) (opt_tags options)\<rparr>)
       (\<lambda>_. case opt_external options of
          None \<Rightarrow> return_io ()
        | Some externalConnection \<Rightarrow>
            if externalConnection = [] then return_io ()
            else retry env
              (associateExternalConnection env (domain this) name externalConnection)))"

definition ensureUpstreams :: "'w env \<Rightarrow> test_repository \<Rightarrow> ('w, unit) io" where
  "ensureUpstreams env this =
     bind_io (ensureRepository env this (npmUpstream this)
       \<lparr>opt_description = Some ''The upstream repository for NPM'',
        opt_external = Some ''public:npmjs'',
        opt_upstreams = None, opt_tags = None\<rparr>) (\<lambda>_.
     bind_io (ensureRepository env this (mavenUpstream this)
       \<lparr>opt_description = Some ''The upstream repository for Maven'',
        opt_external = Some ''public:maven-central'',
        opt_upstreams = None, opt_tags = None\<rparr>) (\<lambda>_.
     bind_io (ensureRepository env this (nugetUpstream this)
       \<lparr>opt_description = Some ''The upstream repository for NuGet'',
        opt_external = Some ''public:nuget-org'',
        opt_upstreams = None, opt_tags = None\<rparr>) (\<lambda>_.
     ensureRepository env this (pypiUpstream this)
       \<lparr>opt_description = Some ''The upstream repository for PyPI'',
        opt_external = Some ''public:pypi'',
        opt_upstreams = None, opt_tags = None\<rparr>)))"

text \<open>
  The template literal \<^verbatim>\<open>`${n}`\<close> of an integral number below \<open>10\<^sup>2\<^sup>1\<close> in
  magnitude: its decimal digits, after a minus sign when negative. Time values stay
  far below that bound, and below \<open>2\<^sup>5\<^sup>3\<close>, where the addition of the lifetime is exact.
\<close>

fun digitsOf :: "nat \<Rightarrow> string" where
  "digitsOf n = (if n < 10 then [''0123456789'' ! n]
     else digitsOf (n div 10) @ [''0123456789'' ! (n mod 10)])"

declare digitsOf.simps [simp del]

definition numberToString :: "int \<Rightarrow> string" where
  "numberToString i = (if i < 0 then CHR ''-'' # digitsOf (nat (- i)) else digitsOf (nat i))"

text \<open>
  The arguments of the last \<^verbatim>\<open>ensureRepository\<close> call are evaluated before the call:
  the clock is read in the world the upstream step leaves behind.
\<close>

definition prepare :: "'w env \<Rightarrow> test_repository \<Rightarrow> ('w, unit) io" where
  "prepare env this =
     bind_io (ensureDomain env this) (\<lambda>_.
     bind_io (ensureUpstreams env this) (\<lambda>_. (\<lambda>w.
     ensureRepository env this (repositoryName this)
       \<lparr>opt_description = Some ''Testing repository'',
        opt_external = None,
        opt_upstreams = Some [npmUpstream this, pypiUpstream this,
                              nugetUpstream this, mavenUpstream this],
        opt_tags = Some [(COLLECT_BY_TAG, numberToString (dateNow env w + REPO_LIFETIME_MS))]\<rparr>
       w)))"

definition newWithName :: "'w env \<Rightarrow> string \<Rightarrow> ('w, test_repository) io" where
  "newWithName env name =
     bind_io (prepare env \<lparr>repositoryName = name\<rparr>) (\<lambda>_.
     return_io \<lparr>repositoryName = name\<rparr>)"

subsection \<open>Login information\<close>

record login_information =
  authToken :: "string option"
  li_repositoryName :: string
  npmEndpoint :: "string option"
  mavenEndpoint :: "string option"
  nugetEndpoint :: "string option"
  pypiEndpoint :: "string option"

text \<open>The fields of the object literal are evaluated in the order they are written.\<close>

definition loginInformation :: "'w env \<Rightarrow> test_repository \<Rightarrow> ('w, login_information) io" where
  "loginInformation env this =
     bind_io (getAuthorizationToken env (domain this) (12 * 3600)) (\<lambda>tok.
     bind_io (getRepositoryEndpoint env (domain this) (repositoryName this) ''npm'') (\<lambda>npm.
     bind_io (getRepositoryEndpoint env (domain this) (repositoryName this) ''maven'') (\<lambda>maven.
     bind_io (getRepositoryEndpoint env (domain this) (repositoryName this) ''nuget'') (\<lambda>nuget.
     bind_io (getRepositoryEndpoint env (domain this) (repositoryName this) ''pypi'') (\<lambda>pypi.
     return_io
       \<lparr>authToken = tok,
        li_repositoryName = repositoryName this,
        npmEndpoint = npm,
        mavenEndpoint = maven,
        nugetEndpoint = nuget,
        pypiEndpoint = pypi\<rparr>)))))"

subsection \<open>Deletion\<close>

definition delete :: "'w env \<Rightarrow> test_repository \<Rightarrow> ('w, unit) io" where
  "delete env this = (\<lambda>w.
     case deleteRepository env (Some (domain this)) (Some (repositoryName this)) w of
       (Inr _, w') \<Rightarrow> (Inr (), w')
     | (Inl e, w') \<Rightarrow>
         if code e \<noteq> RESOURCE_NOT_FOUND then (Inl e, w') else (Inr (), w'))"

subsection \<open>The garbage-collection sweep\<close>

text \<open>
  The body of the \<^verbatim>\<open>for\<close> loop, for one repository of a page:
  \<^verbatim>\<open>tags?.tags?.find(t => t.key === COLLECT_BY_TAG && Number(t.value) < Date.now())\<close>,
  and the deletion when a tag is found.
\<close>

definition collectable :: "'w env \<Rightarrow> 'w \<Rightarrow> tag list option \<Rightarrow> tag option" where
  "collectable env w tags = (case tags of
     None \<Rightarrow> None
   | Some ts \<Rightarrow>
       find (\<lambda>t. tag_key t = COLLECT_BY_TAG
                \<and> js_less (Number (tag_value t)) (dateNow env w)) ts)"

definition gc_repo :: "'w env \<Rightarrow> repository_summary \<Rightarrow> ('w, unit) io" where
  "gc_repo env repo = bind_io (listTagsForResource env (repo_arn repo)) (\<lambda>tags. (\<lambda>w.
     case collectable env w tags of
       None \<Rightarrow> (Inr (), w)
     | Some _ \<Rightarrow> deleteRepository env (repo_domainName repo) (repo_name repo) w))"

text \<open>\<^verbatim>\<open>for (const repo of page.repositories ?? [])\<close>\<close>

fun gc_page :: "'w env \<Rightarrow> repository_summary list \<Rightarrow> ('w, unit) io" where
  "gc_page env [] w = (Inr (), w)"
| "gc_page env (repo # rest) w = (case gc_repo env repo w of
     (Inl e, w') \<Rightarrow> (Inl e, w')
   | (Inr _, w') \<Rightarrow> gc_page env rest w')"

text \<open>
  The \<^verbatim>\<open>do ... while (nextToken)\<close> loop. Nothing in the module bounds the number of
  pages, so the loop takes fuel, one unit per page. A sweep that has returned has the
  result \<open>Some r\<close>; when the fuel runs out the sweep has not returned, and the result is
  \<open>None\<close>, with the world it has reached. The loop goes on while the token is truthy:
  neither absent nor the empty string.
\<close>

definition truthy :: "string option \<Rightarrow> bool" where
  "truthy t = (case t of None \<Rightarrow> False | Some s \<Rightarrow> s \<noteq> [])"

fun gc_pages :: "'w env \<Rightarrow> nat \<Rightarrow> string option \<Rightarrow> 'w \<Rightarrow> (aws_error + unit) option \<times> 'w" where
  "gc_pages env 0 token w = (None, w)"
| "gc_pages env (Suc fuel) token w = (case listRepositories env token w of
     (Inl e, w1) \<Rightarrow> (Some (Inl e), w1)
   | (Inr page, w1) \<Rightarrow>
       (case gc_page env (case repositories page of None \<Rightarrow> [] | Some rs \<Rightarrow> rs) w1 of
          (Inl e, w2) \<Rightarrow> (Some (Inl e), w2)
        | (Inr _, w2) \<Rightarrow>
            if truthy (nextToken page) then gc_pages env fuel (nextToken page) w2
            else (Some (Inr ()), w2)))"

definition gc :: "'w env \<Rightarrow> nat \<Rightarrow> 'w \<Rightarrow> (aws_error + unit) option \<times> 'w" where
  "gc env fuel w = (case domainExists env (existing ''*dummy*'') w of
     (Inl e, w') \<Rightarrow> (Some (Inl e), w')
   | (Inr ex, w') \<Rightarrow> if \<not> ex then (Some (Inr ()), w') else gc_pages env fuel None w')"

subsection \<open>Observing the calls\<close>

text \<open>
  To count and order the calls a run makes, the client is wrapped: every call is
  appended to a log with the clock reading at the call and the rejection it met, if
  any, and is otherwise passed through unchanged. \<^verbatim>\<open>sleep\<close> is logged the same way.
\<close>

datatype call =
    DescribeDomain string
  | CreateDomain string "tag list"
  | DescribeRepository string string
  | CreateRepository create_repository_request
  | AssociateExternalConnection string string string
  | DeleteRepository "string option" "string option"
  | GetAuthorizationToken string nat
  | GetRepositoryEndpoint string string string
  | ListRepositories "string option"
  | ListTagsForResource "string option"
  | Sleep nat

record entry =
  called :: call
  time :: int
  rejection :: "aws_error option"

definition rejected :: "aws_error + 'a \<Rightarrow> aws_error option" where
  "rejected r = (case r of Inl e \<Rightarrow> Some e | Inr _ \<Rightarrow> None)"

definition logged :: "'w env \<Rightarrow> call \<Rightarrow> ('w, 'a) io \<Rightarrow> ('w \<times> entry list, 'a) io" where
  "logged env c op = (\<lambda>(w, tr). case op w of
     (r, w') \<Rightarrow> (r, (w', tr @ [\<lparr>called = c, time = dateNow env w, rejection = rejected r\<rparr>])))"

definition spy :: "'w env \<Rightarrow> ('w \<times> entry list) env" where
  "spy env =
     \<lparr>describeDomain = (\<lambda>d. logged env (DescribeDomain d) (describeDomain env d)),
      createDomain = (\<lambda>d ts. logged env (CreateDomain d ts) (createDomain env d ts)),
      describeRepository = (\<lambda>d n. logged env (DescribeRepository d n) (describeRepository env d n)),
      createRepository = (\<lambda>rq. logged env (CreateRepository rq) (createRepository env rq)),
      associateExternalConnection = (\<lambda>d n x.
        logged env (AssociateExternalConnection d n x) (associateExternalConnection env d n x)),
      deleteRepository = (\<lambda>d n. logged env (DeleteRepository d n) (deleteRepository env d n)),
      getAuthorizationToken = (\<lambda>d s.
        logged env (GetAuthorizationToken d s) (getAuthorizationToken env d s)),
      getRepositoryEndpoint = (\<lambda>d n f.
        logged env (GetRepositoryEndpoint d n f) (getRepositoryEndpoint env d n f)),
      listRepositories = (\<lambda>t. logged env (ListRepositories t) (listRepositories env t)),
      listTagsForResource = (\<lambda>a. logged env (ListTagsForResource a) (listTagsForResource env a)),
      dateNow = (\<lambda>(w, tr). dateNow env w),
      sleep = (\<lambda>ms (w, tr).
        (sleep env ms w, tr @ [\<lparr>called = Sleep ms, time = dateNow env w, rejection = None\<rparr>]))\<rparr>"

subsection \<open>A reference registry\<close>

text \<open>
  The registry itself is a service outside the repository. Where a property depends on
  what the registry answers (a repository that was created is found by a later probe,
  a repository that was deleted is not), it is stated against this reference registry:
  domains, repositories with their tags, upstreams and external connections, a clock,
  and a plan of injected rejections. Each call first consumes one item of the plan:
  \<open>Some e\<close> rejects the call with \<open>e\<close> and changes nothing, \<open>None\<close> (or an
  exhausted plan) lets the registry answer by its own state.

  By its own state the registry answers as the module expects of it: a call that names a
  domain or a repository it does not hold is rejected with
  \<^verbatim>\<open>ResourceNotFoundException\<close>, the creation of what it already holds with
  \<^verbatim>\<open>ConflictException\<close>, a call without a required parameter with
  \<^verbatim>\<open>MissingRequiredParameter\<close>; every other call succeeds and has its effect. The token
  request names a domain only. The clock stands still during a call and moves in
  \<^verbatim>\<open>sleep\<close>.
\<close>

record repo_state =
  rs_domain :: string
  rs_name :: string
  rs_description :: "string option"
  rs_upstreams :: "string list"
  rs_tags :: "tag list"
  rs_external :: "string list"

record registry =
  reg_domains :: "string list"
  reg_repos :: "repo_state list"
  reg_clock :: int
  reg_faults :: "aws_error option list"
  reg_page_size :: nat

definition notFound :: aws_error where
  "notFound = \<lparr>code = RESOURCE_NOT_FOUND, message = ''not found''\<rparr>"

definition conflict :: aws_error where
  "conflict = \<lparr>code = ''ConflictException'', message = ''already exists''\<rparr>"

definition missingParameter :: aws_error where
  "missingParameter = \<lparr>code = ''MissingRequiredParameter'', message = ''missing parameter''\<rparr>"

definition answering :: "(registry, 'a) io \<Rightarrow> (registry, 'a) io" where
  "answering op = (\<lambda>s. case reg_faults s of
     [] \<Rightarrow> op s
   | None # plan \<Rightarrow> op (s\<lparr>reg_faults := plan\<rparr>)
   | Some e # plan \<Rightarrow> (Inl e, s\<lparr>reg_faults := plan\<rparr>))"

definition has_domain :: "registry \<Rightarrow> string \<Rightarrow> bool" where
  "has_domain s d = (d \<in> set (reg_domains s))"

definition is_repo :: "string \<Rightarrow> string \<Rightarrow> repo_state \<Rightarrow> bool" where
  "is_repo d n r = (rs_domain r = d \<and> rs_name r = n)"

definition has_repo :: "registry \<Rightarrow> string \<Rightarrow> string \<Rightarrow> bool" where
  "has_repo s d n = (has_domain s d \<and> (\<exists>r \<in> set (reg_repos s). is_repo d n r))"

definition arn_of :: "string \<Rightarrow> string \<Rightarrow> string" where
  "arn_of d n = ''arn:aws:codeartifact:repository/'' @ d @ ''/'' @ n"

definition summary_of :: "repo_state \<Rightarrow> repository_summary" where
  "summary_of r =
     \<lparr>repo_name = Some (rs_name r),
      repo_arn = Some (arn_of (rs_domain r) (rs_name r)),
      repo_domainName = Some (rs_domain r)\<rparr>"

definition reg_describeDomain :: "string \<Rightarrow> (registry, unit) io" where
  "reg_describeDomain d = answering (\<lambda>s.
     if has_domain s d then (Inr (), s) else (Inl notFound, s))"

definition reg_createDomain :: "string \<Rightarrow> tag list \<Rightarrow> (registry, unit) io" where
  "reg_createDomain d ts = answering (\<lambda>s.
     if has_domain s d then (Inl conflict, s)
     else (Inr (), s\<lparr>reg_domains := reg_domains s @ [d]\<rparr>))"

definition reg_describeRepository :: "string \<Rightarrow> string \<Rightarrow> (registry, unit) io" where
  "reg_describeRepository d n = answering (\<lambda>s.
     if has_repo s d n then (Inr (), s) else (Inl notFound, s))"

definition reg_createRepository :: "create_repository_request \<Rightarrow> (registry, unit) io" where
  "reg_createRepository rq = answering (\<lambda>s.
     if \<not> has_domain s (cr_domain rq) then (Inl notFound, s)
     else if has_repo s (cr_domain rq) (cr_repository rq) then (Inl conflict, s)
     else if \<exists>u \<in> set (case cr_upstreams rq of None \<Rightarrow> [] | Some us \<Rightarrow> us).
               \<not> has_repo s (cr_domain rq) u
       then (Inl notFound, s)
     else (Inr (), s\<lparr>reg_repos := reg_repos s @
       [\<lparr>rs_domain = cr_domain rq,
         rs_name = cr_repository rq,
         rs_description = cr_description rq,
         rs_upstreams = (case cr_upstreams rq of None \<Rightarrow> [] | Some us \<Rightarrow> us),
         rs_tags = (case cr_tags rq of None \<Rightarrow> [] | Some ts \<Rightarrow> ts),
         rs_external = []\<rparr>]\<rparr>))"

definition reg_associateExternalConnection ::
  "string \<Rightarrow> string \<Rightarrow> string \<Rightarrow> (registry, unit) io" where
  "reg_associateExternalConnection d n x = answering (\<lambda>s.
     if \<not> has_repo s d n then (Inl notFound, s)
     else if \<exists>r \<in> set (reg_repos s). is_repo d n r \<and> rs_external r \<noteq> [] then (Inl conflict, s)
     else (Inr (), s\<lparr>reg_repos :=
       map (\<lambda>r. if is_repo d n r then r\<lparr>rs_external := [x]\<rparr> else r) (reg_repos s)\<rparr>))"

definition reg_deleteRepository :: "string option \<Rightarrow> string option \<Rightarrow> (registry, unit) io" where
  "reg_deleteRepository d n = answering (\<lambda>s.
     case (d, n) of
       (Some d', Some n') \<Rightarrow>
         if has_repo s d' n'
         then (Inr (), s\<lparr>reg_repos := filter (\<lambda>r. \<not> is_repo d' n' r) (reg_repos s)\<rparr>)
         else (Inl notFound, s)
     | _ \<Rightarrow> (Inl missingParameter, s))"

definition reg_getAuthorizationToken :: "string \<Rightarrow> nat \<Rightarrow> (registry, string option) io" where
  "reg_getAuthorizationToken d secs = answering (\<lambda>s.
     if has_domain s d then (Inr (Some (''token-for-'' @ d)), s) else (Inl notFound, s))"

definition reg_getRepositoryEndpoint ::
  "string \<Rightarrow> string \<Rightarrow> string \<Rightarrow> (registry, string option) io" where
  "reg_getRepositoryEndpoint d n f = answering (\<lambda>s.
     if has_repo s d n then (Inr (Some (''https://'' @ d @ ''/'' @ f @ ''/'' @ n @ ''/'')), s)
     else (Inl notFound, s))"

text \<open>
  Pages hold \<open>reg_page_size\<close> summaries; the continuation token is the offset of the
  next page, written in unary.
\<close>

definition reg_listRepositories :: "string option \<Rightarrow> (registry, repositories_page) io" where
  "reg_listRepositories token = answering (\<lambda>s.
     let off = (case token of None \<Rightarrow> 0 | Some t \<Rightarrow> length t);
         next = off + reg_page_size s
     in (Inr \<lparr>repositories = Some (map summary_of (take (reg_page_size s) (drop off (reg_repos s)))),
              nextToken = (if next < length (reg_repos s)
                           then Some (replicate next (CHR ''+'')) else None)\<rparr>, s))"

definition reg_listTagsForResource :: "string option \<Rightarrow> (registry, tag list option) io" where
  "reg_listTagsForResource a = answering (\<lambda>s.
     case a of
       None \<Rightarrow> (Inl missingParameter, s)
     | Some a' \<Rightarrow>
         (case find (\<lambda>r. arn_of (rs_domain r) (rs_name r) = a') (reg_repos s) of
            None \<Rightarrow> (Inl notFound, s)
          | Some r \<Rightarrow> (Inr (Some (rs_tags r)), s)))"

definition registry_client :: "registry env" where
  "registry_client =
     \<lparr>describeDomain = reg_describeDomain,
      createDomain = reg_createDomain,
      describeRepository = reg_describeRepository,
      createRepository = reg_createRepository,
      associateExternalConnection = reg_associateExternalConnection,
      deleteRepository = reg_deleteRepository,
      getAuthorizationToken = reg_getAuthorizationToken,
      getRepositoryEndpoint = reg_getRepositoryEndpoint,
      listRepositories = reg_listRepositories,
      listTagsForResource = reg_listTagsForResource,
      dateNow = reg_clock,
      sleep = (\<lambda>ms s. s\<lparr>reg_clock := reg_clock s + int ms\<rparr>)\<rparr>"

section \<open>Reading runs\<close>

subsection \<open>Reading the log\<close>

text \<open>The log entry of the call \<open>c\<close> made in the world \<open>w\<close> and met with \<open>r\<close>.\<close>

definition attempt :: "'w env \<Rightarrow> call \<Rightarrow> 'w \<Rightarrow> aws_error option \<Rightarrow> entry" where
  "attempt env c w r = \<lparr>called = c, time = dateNow env w, rejection = r\<rparr>"

text \<open>The repositories a log shows a \<^verbatim>\<open>deleteRepository\<close> call for, in order.\<close>

primrec deletions :: "entry list \<Rightarrow> (string option \<times> string option) list" where
  "deletions [] = []"
| "deletions (x # xs) = (case called x of
     DeleteRepository d n \<Rightarrow> (d, n) # deletions xs
   | _ \<Rightarrow> deletions xs)"

text \<open>The \<^verbatim>\<open>createRepository\<close> calls of a log that name a given repository, and their number.\<close>

definition creates :: "string \<Rightarrow> entry \<Rightarrow> bool" where
  "creates n x = (case called x of CreateRepository rq \<Rightarrow> cr_repository rq = n | _ \<Rightarrow> False)"

definition creations :: "string \<Rightarrow> entry list \<Rightarrow> nat" where
  "creations n tr = length (filter (creates n) tr)"

text \<open>The resources a log shows a \<^verbatim>\<open>listTagsForResource\<close> call for, in order.\<close>

primrec examined :: "entry list \<Rightarrow> string option list" where
  "examined [] = []"
| "examined (x # xs) = (case called x of
     ListTagsForResource a \<Rightarrow> a # examined xs
   | _ \<Rightarrow> examined xs)"

text \<open>
  A numeric string: a text that, without the white space around it, is a numeric literal
  of the conversion, decimal or not.
\<close>

definition strNumericLiteral :: "string \<Rightarrow> bool" where
  "strNumericLiteral s = (nonDecimalIntegerLiteral (trimString s) \<noteq> None
     \<or> strDecimalLiteral (trimString s) \<noteq> None)"

text \<open>
  The test of the sweep as a predicate of the clock reading and the tags: \<^verbatim>\<open>find\<close>
  meets a tag.
\<close>

definition expired :: "int \<Rightarrow> tag list option \<Rightarrow> bool" where
  "expired now tags = (\<exists>t \<in> set (case tags of None \<Rightarrow> [] | Some ts \<Rightarrow> ts).
     tag_key t = ''collect-by'' \<and> js_less (Number (tag_value t)) now)"

text \<open>
  The repositories the pagination returns when the registry answers the token \<open>t\<close> with
  the page \<open>pageOf t\<close>: those of the pages from \<open>token\<close> on, in order, if the last page
  comes within \<open>fuel\<close> pages.
\<close>

fun listing ::
  "(string option \<Rightarrow> repositories_page) \<Rightarrow> nat \<Rightarrow> string option
     \<Rightarrow> repository_summary list option" where
  "listing pageOf 0 token = None"
| "listing pageOf (Suc fuel) token =
     (let page = pageOf token;
          here = (case repositories page of None \<Rightarrow> [] | Some rs \<Rightarrow> rs)
      in if truthy (nextToken page)
         then map_option (\<lambda>later. here @ later) (listing pageOf fuel (nextToken page))
         else Some here)"

text \<open>
  The rejections the existence probes absorb: a \<^verbatim>\<open>describeDomain\<close> or
  \<^verbatim>\<open>describeRepository\<close> call rejected with \<^verbatim>\<open>ResourceNotFoundException\<close>.
\<close>

definition absorbed_probe :: "entry \<Rightarrow> bool" where
  "absorbed_probe x = (case rejection x of
     None \<Rightarrow> False
   | Some e \<Rightarrow> code e = RESOURCE_NOT_FOUND
       \<and> (case called x of DescribeDomain _ \<Rightarrow> True | DescribeRepository _ _ \<Rightarrow> True | _ \<Rightarrow> False))"

text \<open>A rejected \<^verbatim>\<open>associateExternalConnection\<close> call.\<close>

definition rejected_association :: "entry \<Rightarrow> bool" where
  "rejected_association x = (rejection x \<noteq> None
     \<and> (case called x of AssociateExternalConnection _ _ _ \<Rightarrow> True | _ \<Rightarrow> False))"

text \<open>The rejections that do not end provisioning at once.\<close>

definition unretried :: "entry \<Rightarrow> bool" where
  "unretried x = (rejected_association x \<or> absorbed_probe x)"

text \<open>
  The log of the retry helper for the call \<open>c\<close> with \<open>n\<close> retries left, ending with the
  rejection \<open>r\<close> (if any): rejected attempts, each followed by a sleep of 500 ms, then a last
  attempt, which is rejected only when no retry is left.
\<close>

fun retry_shape :: "call \<Rightarrow> nat \<Rightarrow> aws_error option \<Rightarrow> entry list \<Rightarrow> bool" where
  "retry_shape c n r [x] = (called x = c \<and> rejection x = r \<and> (r \<noteq> None \<longrightarrow> n = 0))"
| "retry_shape c (Suc n) r (x # y # rest) =
     (called x = c \<and> rejection x \<noteq> None \<and> called y = Sleep 500 \<and> rejection y = None
      \<and> retry_shape c n r rest)"
| "retry_shape c n r seg = False"

text \<open>
  Statements about the log of a run. \<open>traces P m\<close>: whatever the starting world and
  log, the run of \<open>m\<close> appends a segment to the log, and \<open>P\<close> holds of the starting
  world, the rejection the run ends with (if any) and that segment.
\<close>

definition traces ::
  "('w \<Rightarrow> aws_error option \<Rightarrow> entry list \<Rightarrow> bool) \<Rightarrow> ('w \<times> entry list, 'a) io \<Rightarrow> bool" where
  "traces P m = (\<forall>w tr. \<exists>seg. snd (snd (m (w, tr))) = tr @ seg
                             \<and> P w (rejected (fst (m (w, tr)))) seg)"

text \<open>
  A rejection surfaces at once: in a segment that ends without a rejection, every rejected
  call is of a kind \<open>A\<close> that the program absorbs; in a segment that ends with the
  rejection \<open>e\<close>, the last call is the one rejected with \<open>e\<close>, and every rejected call
  before it is of kind \<open>A\<close>.
\<close>

definition surfaced :: "(entry \<Rightarrow> bool) \<Rightarrow> aws_error option \<Rightarrow> entry list \<Rightarrow> bool" where
  "surfaced A r seg = (case r of
     None \<Rightarrow> (\<forall>x \<in> set seg. rejection x \<noteq> None \<longrightarrow> A x)
   | Some e \<Rightarrow> (\<exists>pre x. seg = pre @ [x] \<and> rejection x = Some e
                 \<and> (\<forall>y \<in> set pre. rejection y \<noteq> None \<longrightarrow> A y)))"

text \<open>A property of log segments that sequencing keeps.\<close>

definition sequential :: "(aws_error option \<Rightarrow> entry list \<Rightarrow> bool) \<Rightarrow> bool" where
  "sequential P = (P None [] \<and> (\<forall>s1 r s2. P None s1 \<and> P r s2 \<longrightarrow> P r (s1 @ s2)))"

text \<open>
  Every sleep in the segment lasts 500 ms and comes directly after a rejected association;
  the flag tells whether the call before the segment was one.
\<close>

fun paced :: "bool \<Rightarrow> entry list \<Rightarrow> bool" where
  "paced ok [] = True"
| "paced ok (x # xs) =
     ((\<forall>ms. called x = Sleep ms \<longrightarrow> ok \<and> ms = 500) \<and> paced (rejected_association x) xs)"

text \<open>
  Every rejected association that is not the last call of the segment is followed by a
  sleep of 500 ms and then by the same call again.
\<close>

fun retrying :: "entry list \<Rightarrow> bool" where
  "retrying (x # y # rest) =
     ((rejected_association x \<longrightarrow>
         called y = Sleep 500 \<and> (\<exists>z more. rest = z # more \<and> called z = called x))
      \<and> retrying (y # rest))"
| "retrying seg = True"

text \<open>A segment that is \<open>retrying\<close> and, when the run succeeds, does not end in a rejected association.\<close>

definition settled :: "aws_error option \<Rightarrow> entry list \<Rightarrow> bool" where
  "settled r seg = (retrying seg \<and> (r = None \<longrightarrow> seg = [] \<or> \<not> rejected_association (last seg)))"

text \<open>
  A segment that ends in a rejected association ends with the rejection of the run, and
  that call is the fourth attempt in a row: three rejected attempts of the same call, each
  followed by a sleep of 500 ms, come directly before it.
\<close>

definition exhausted :: "aws_error option \<Rightarrow> entry list \<Rightarrow> bool" where
  "exhausted r seg = (\<forall>pre x. seg = pre @ [x] \<and> rejected_association x
     \<longrightarrow> r = rejection x
       \<and> (\<exists>first x1 y1 x2 y2 x3 y3. pre = first @ [x1, y1, x2, y2, x3, y3]
            \<and> called x1 = called x \<and> rejection x1 \<noteq> None \<and> called y1 = Sleep 500
            \<and> called x2 = called x \<and> rejection x2 \<noteq> None \<and> called y2 = Sleep 500
            \<and> called x3 = called x \<and> rejection x3 \<noteq> None \<and> called y3 = Sleep 500))"

text \<open>
  The retry policy of provisioning, as a reader of logs. The state is \<open>None\<close> when no
  retry is pending, and \<open>Some (c, k, e)\<close> when the last call was an attempt of the
  association \<open>c\<close> that was rejected with \<open>e\<close> and \<open>k\<close> retries are left. With no retry
  pending, a sleep breaks the policy; a rejected association opens a retry with three
  retries left; any other call goes on when it succeeds or is a probe answered with
  not-found, and must be the last call when it is rejected otherwise. With a retry
  pending, the log ends if no retry is left; else a sleep of 500 ms and the same call
  follow, which closes the retry when it succeeds and uses up one retry when it is
  rejected. The result is \<open>None\<close> when the log breaks the policy, and otherwise
  \<open>Some r\<close>, where \<open>r\<close> is the rejection the log ends with, if any.
\<close>

fun policy :: "(call \<times> nat \<times> aws_error) option \<Rightarrow> entry list \<Rightarrow> aws_error option option" where
  "policy None [] = Some None"
| "policy None (x # xs) = (case called x of
     Sleep ms \<Rightarrow> None
   | AssociateExternalConnection d n c \<Rightarrow>
       (case rejection x of
          None \<Rightarrow> policy None xs
        | Some e \<Rightarrow> policy (Some (called x, 3, e)) xs)
   | _ \<Rightarrow>
       (case rejection x of
          None \<Rightarrow> policy None xs
        | Some e \<Rightarrow>
            if absorbed_probe x then policy None xs
            else if xs = [] then Some (Some e) else None))"
| "policy (Some (c, 0, e)) xs = (if xs = [] then Some (Some e) else None)"
| "policy (Some (c, Suc k, e)) (y # x # xs) =
     (if called y = Sleep 500 \<and> rejection y = None \<and> called x = c
      then (case rejection x of
              None \<Rightarrow> policy None xs
            | Some e' \<Rightarrow> policy (Some (c, k, e')) xs)
      else None)"
| "policy (Some (c, Suc k, e)) xs = None"

text \<open>The request \<^verbatim>\<open>ensureRepository\<close> sends to \<^verbatim>\<open>createRepository\<close>.\<close>

definition request_of :: "test_repository \<Rightarrow> string \<Rightarrow> ensure_options \<Rightarrow> create_repository_request" where
  "request_of self name options =
     \<lparr>cr_domain = domain self, cr_repository = name,
      cr_description = opt_description options, cr_upstreams = opt_upstreams options,
      cr_tags = map_option (map (\<lambda>(k, v). \<lparr>tag_key = k, tag_value = v\<rparr>)) (opt_tags options)\<rparr>"

text \<open>
  The steps of provisioning, as the log shows them. A step probes; when the probe
  succeeds it does nothing more, and when the probe is rejected with not-found it goes on
  with the calls \<open>create\<close> allows, which may depend on the clock reading of the probe.
\<close>

definition probe_then :: "call \<Rightarrow> (int \<Rightarrow> entry list \<Rightarrow> bool) \<Rightarrow> entry list \<Rightarrow> bool" where
  "probe_then probe create seg =
     (\<exists>t. seg = [\<lparr>called = probe, time = t, rejection = None\<rparr>]
        \<or> (\<exists>e rest. code e = ''ResourceNotFoundException''
              \<and> seg = \<lparr>called = probe, time = t, rejection = Some e\<rparr> # rest
              \<and> create t rest))"

definition domain_step :: "entry list \<Rightarrow> bool" where
  "domain_step = probe_then (DescribeDomain ''test-cdk'')
     (\<lambda>t rest. \<exists>t'. rest =
        [\<lparr>called = CreateDomain ''test-cdk'' [\<lparr>tag_key = ''testing'', tag_value = ''true''\<rparr>],
          time = t', rejection = None\<rparr>])"

definition upstream_step :: "string \<Rightarrow> string \<Rightarrow> string \<Rightarrow> entry list \<Rightarrow> bool" where
  "upstream_step name description external = probe_then (DescribeRepository ''test-cdk'' name)
     (\<lambda>t rest. \<exists>t' assoc. rest =
          \<lparr>called = CreateRepository
             \<lparr>cr_domain = ''test-cdk'', cr_repository = name,
              cr_description = Some description, cr_upstreams = None, cr_tags = None\<rparr>,
           time = t', rejection = None\<rparr> # assoc
        \<and> retry_shape (AssociateExternalConnection ''test-cdk'' name external) 3 None assoc)"

definition sandbox_step :: "string \<Rightarrow> entry list \<Rightarrow> bool" where
  "sandbox_step name = probe_then (DescribeRepository ''test-cdk'' name)
     (\<lambda>t rest. \<exists>t'. rest =
        [\<lparr>called = CreateRepository
            \<lparr>cr_domain = ''test-cdk'', cr_repository = name,
             cr_description = Some ''Testing repository'',
             cr_upstreams = Some [''npm-upstream'', ''pypi-upstream'', ''nuget-upstream'',
                                  ''maven-upstream''],
             cr_tags = Some [\<lparr>tag_key = ''collect-by'',
                               tag_value = numberToString (t + 24 * 3600 * 1000)\<rparr>]\<rparr>,
          time = t', rejection = None\<rparr>])"

subsection \<open>Reading the reference registry\<close>

text \<open>The registry records a repository of that name in that domain.\<close>

definition has_entry :: "registry \<Rightarrow> string \<Rightarrow> string \<Rightarrow> bool" where
  "has_entry s d n = (\<exists>r \<in> set (reg_repos s). is_repo d n r)"

text \<open>The record the reference registry holds once \<open>ensureRepository\<close> has created a repository.\<close>

definition new_repo :: "string \<Rightarrow> string \<Rightarrow> ensure_options \<Rightarrow> repo_state" where
  "new_repo d n options =
     \<lparr>rs_domain = d, rs_name = n, rs_description = opt_description options,
      rs_upstreams = (case opt_upstreams options of None \<Rightarrow> [] | Some us \<Rightarrow> us),
      rs_tags = (case opt_tags options of None \<Rightarrow> []
                 | Some kvs \<Rightarrow> map (\<lambda>(k, v). \<lparr>tag_key = k, tag_value = v\<rparr>) kvs),
      rs_external = (case opt_external options of None \<Rightarrow> []
                     | Some x \<Rightarrow> if x = [] then [] else [x])\<rparr>"

text \<open>
  The name the registry lists and tags a repository under, the test of the sweep on the
  tags the registry holds, and the arguments with which the sweep deletes it.
\<close>

definition repo_arn_of :: "repo_state \<Rightarrow> string" where
  "repo_arn_of r = arn_of (rs_domain r) (rs_name r)"

definition repo_expired :: "int \<Rightarrow> repo_state \<Rightarrow> bool" where
  "repo_expired now r = (\<exists>t \<in> set (rs_tags r).
     tag_key t = ''collect-by'' \<and> js_less (Number (tag_value t)) now)"

definition repo_id :: "repo_state \<Rightarrow> string option \<times> string option" where
  "repo_id r = (Some (rs_domain r), Some (rs_name r))"

subsection \<open>Concrete registries and logs\<close>

text \<open>A rejection that is not a not-found answer, a sandbox name, and shorthands for records.\<close>

definition boom :: aws_error where
  "boom = \<lparr>code = ''ThrottlingException'', message = ''slow down''\<rparr>"

definition ghost :: test_repository where
  "ghost = \<lparr>repositoryName = ''test-ghost''\<rparr>"

definition mk_repo :: "string \<Rightarrow> tag list \<Rightarrow> repo_state" where
  "mk_repo n ts = \<lparr>rs_domain = ''test-cdk'', rs_name = n, rs_description = None,
     rs_upstreams = [], rs_tags = ts, rs_external = []\<rparr>"

definition done_at :: "int \<Rightarrow> call \<Rightarrow> entry" where
  "done_at t c = \<lparr>called = c, time = t, rejection = None\<rparr>"

definition missing_at :: "int \<Rightarrow> call \<Rightarrow> entry" where
  "missing_at t c = \<lparr>called = c, time = t, rejection = Some notFound\<rparr>"

text \<open>A registry that rejects the next two calls and answers the third.\<close>

definition w_flaky :: registry where
  "w_flaky =
     \<lparr>reg_domains = [''test-cdk''],
      reg_repos = [\<lparr>rs_domain = ''test-cdk'', rs_name = ''npm-upstream'', rs_description = None,
                    rs_upstreams = [], rs_tags = [], rs_external = []\<rparr>],
      reg_clock = 1000, reg_faults = [Some boom, Some boom, None], reg_page_size = 2\<rparr>"

text \<open>
  A registry with three sandboxes whose expiry tags read 500, 400 and \<^verbatim>\<open>soon\<close>, at
  clock 1000; the sandbox \<open>ghost\<close> is not in it.
\<close>

definition w_sweep :: registry where
  "w_sweep =
     \<lparr>reg_domains = [''test-cdk''],
      reg_repos =
        [mk_repo ''test-old'' [\<lparr>tag_key = ''collect-by'', tag_value = ''500''\<rparr>],
         mk_repo ''test-older'' [\<lparr>tag_key = ''collect-by'', tag_value = ''400''\<rparr>],
         mk_repo ''test-odd'' [\<lparr>tag_key = ''collect-by'', tag_value = ''soon''\<rparr>]],
      reg_clock = 1000, reg_faults = [], reg_page_size = 2\<rparr>"

text \<open>
  The registry \<open>w_sweep\<close> with a rejection injected into the fourth call, which is the
  first deletion of the sweep, and the log of the sweep there.
\<close>

definition w_abort :: registry where
  "w_abort = w_sweep\<lparr>reg_faults := [None, None, None, Some boom]\<rparr>"

definition abort_log :: "entry list" where
  "abort_log =
     [done_at 1000 (DescribeDomain ''test-cdk''),
      done_at 1000 (ListRepositories None),
      done_at 1000 (ListTagsForResource
        (Some ''arn:aws:codeartifact:repository/test-cdk/test-old''))]"

definition abort_call :: entry where
  "abort_call = \<lparr>called = DeleteRepository (Some ''test-cdk'') (Some ''test-old''),
     time = 1000, rejection = Some boom\<rparr>"

text \<open>
  A registry that has the domain only, with rejections injected into the fourth call (the
  first association) and the sixth (the probe of the second upstream), and the log and
  the registry provisioning ends with.
\<close>

definition npm_request :: create_repository_request where
  "npm_request =
     \<lparr>cr_domain = ''test-cdk'', cr_repository = ''npm-upstream'',
      cr_description = Some ''The upstream repository for NPM'',
      cr_upstreams = None, cr_tags = None\<rparr>"

definition w_halfway :: registry where
  "w_halfway =
     \<lparr>reg_domains = [''test-cdk''], reg_repos = [], reg_clock = 1000,
      reg_faults = [None, None, None, Some boom, None, Some boom], reg_page_size = 2\<rparr>"

definition halfway_log :: "entry list" where
  "halfway_log =
     [\<lparr>called = DescribeDomain ''test-cdk'', time = 1000, rejection = None\<rparr>,
      \<lparr>called = DescribeRepository ''test-cdk'' ''npm-upstream'', time = 1000,
       rejection = Some notFound\<rparr>,
      \<lparr>called = CreateRepository npm_request, time = 1000, rejection = None\<rparr>,
      \<lparr>called = AssociateExternalConnection ''test-cdk'' ''npm-upstream'' ''public:npmjs'',
       time = 1000, rejection = Some boom\<rparr>,
      \<lparr>called = Sleep 500, time = 1000, rejection = None\<rparr>,
      \<lparr>called = AssociateExternalConnection ''test-cdk'' ''npm-upstream'' ''public:npmjs'',
       time = 1500, rejection = None\<rparr>]"

definition halfway_stop :: entry where
  "halfway_stop = \<lparr>called = DescribeRepository ''test-cdk'' ''maven-upstream'', time = 1500,
     rejection = Some boom\<rparr>"

definition w_halfway_end :: registry where
  "w_halfway_end =
     \<lparr>reg_domains = [''test-cdk''],
      reg_repos = [\<lparr>rs_domain = ''test-cdk'', rs_name = ''npm-upstream'',
                    rs_description = Some ''The upstream repository for NPM'',
                    rs_upstreams = [], rs_tags = [], rs_external = [''public:npmjs'']\<rparr>],
      reg_clock = 1500, reg_faults = [], reg_page_size = 2\<rparr>"

text \<open>An empty registry, and the log of provisioning the sandbox \<open>ghost\<close> in it.\<close>

definition upstream_request :: "string \<Rightarrow> string \<Rightarrow> create_repository_request" where
  "upstream_request name description =
     \<lparr>cr_domain = ''test-cdk'', cr_repository = name, cr_description = Some description,
      cr_upstreams = None, cr_tags = None\<rparr>"

definition sandbox_request :: "string \<Rightarrow> string \<Rightarrow> create_repository_request" where
  "sandbox_request name expiry =
     \<lparr>cr_domain = ''test-cdk'', cr_repository = name,
      cr_description = Some ''Testing repository'',
      cr_upstreams = Some [''npm-upstream'', ''pypi-upstream'', ''nuget-upstream'',
                           ''maven-upstream''],
      cr_tags = Some [\<lparr>tag_key = ''collect-by'', tag_value = expiry\<rparr>]\<rparr>"

definition w_empty :: registry where
  "w_empty = \<lparr>reg_domains = [], reg_repos = [], reg_clock = 1000, reg_faults = [],
     reg_page_size = 2\<rparr>"

definition fresh_log :: "entry list" where
  "fresh_log =
     [missing_at 1000 (DescribeDomain ''test-cdk''),
      done_at 1000 (CreateDomain ''test-cdk'' [\<lparr>tag_key = ''testing'', tag_value = ''true''\<rparr>]),
      missing_at 1000 (DescribeRepository ''test-cdk'' ''npm-upstream''),
      done_at 1000 (CreateRepository
        (upstream_request ''npm-upstream'' ''The upstream repository for NPM'')),
      done_at 1000 (AssociateExternalConnection ''test-cdk'' ''npm-upstream'' ''public:npmjs''),
      missing_at 1000 (DescribeRepository ''test-cdk'' ''maven-upstream''),
      done_at 1000 (CreateRepository
        (upstream_request ''maven-upstream'' ''The upstream repository for Maven'')),
      done_at 1000 (AssociateExternalConnection ''test-cdk'' ''maven-upstream''
        ''public:maven-central''),
      missing_at 1000 (DescribeRepository ''test-cdk'' ''nuget-upstream''),
      done_at 1000 (CreateRepository
        (upstream_request ''nuget-upstream'' ''The upstream repository for NuGet'')),
      done_at 1000 (AssociateExternalConnection ''test-cdk'' ''nuget-upstream''
        ''public:nuget-org''),
      missing_at 1000 (DescribeRepository ''test-cdk'' ''pypi-upstream''),
      done_at 1000 (CreateRepository
        (upstream_request ''pypi-upstream'' ''The upstream repository for PyPI'')),
      done_at 1000 (AssociateExternalConnection ''test-cdk'' ''pypi-upstream'' ''public:pypi''),
      missing_at 1000 (DescribeRepository ''test-cdk'' ''test-ghost''),
      done_at 1000 (CreateRepository (sandbox_request ''test-ghost'' ''86401000''))]"

text \<open>
  The options of an upstream, and a registry that has the domain only and rejects the
  third to sixth call.
\<close>

definition upstream_options :: "string \<Rightarrow> string \<Rightarrow> ensure_options" where
  "upstream_options description external =
     \<lparr>opt_description = Some description, opt_external = Some external,
      opt_upstreams = None, opt_tags = None\<rparr>"

definition w_stuck :: registry where
  "w_stuck =
     \<lparr>reg_domains = [''test-cdk''], reg_repos = [], reg_clock = 1000,
      reg_faults = [None, None, Some boom, Some boom, Some boom, Some boom],
      reg_page_size = 2\<rparr>"

text \<open>
  The registry \<open>w_empty\<close> once the domain and the four upstreams are provisioned, and the
  log of provisioning a sandbox named \<^verbatim>\<open>npm-upstream\<close> in the empty registry.
\<close>

definition w_upstreams :: registry where
  "w_upstreams =
     \<lparr>reg_domains = [''test-cdk''],
      reg_repos =
        [\<lparr>rs_domain = ''test-cdk'', rs_name = ''npm-upstream'',
          rs_description = Some ''The upstream repository for NPM'',
          rs_upstreams = [], rs_tags = [], rs_external = [''public:npmjs'']\<rparr>,
         \<lparr>rs_domain = ''test-cdk'', rs_name = ''maven-upstream'',
          rs_description = Some ''The upstream repository for Maven'',
          rs_upstreams = [], rs_tags = [], rs_external = [''public:maven-central'']\<rparr>,
         \<lparr>rs_domain = ''test-cdk'', rs_name = ''nuget-upstream'',
          rs_description = Some ''The upstream repository for NuGet'',
          rs_upstreams = [], rs_tags = [], rs_external = [''public:nuget-org'']\<rparr>,
         \<lparr>rs_domain = ''test-cdk'', rs_name = ''pypi-upstream'',
          rs_description = Some ''The upstream repository for PyPI'',
          rs_upstreams = [], rs_tags = [], rs_external = [''public:pypi'']\<rparr>],
      reg_clock = 1000, reg_faults = [], reg_page_size = 2\<rparr>"

definition namesake_log :: "entry list" where
  "namesake_log =
     [missing_at 1000 (DescribeDomain ''test-cdk''),
      done_at 1000 (CreateDomain ''test-cdk'' [\<lparr>tag_key = ''testing'', tag_value = ''true''\<rparr>]),
      missing_at 1000 (DescribeRepository ''test-cdk'' ''npm-upstream''),
      done_at 1000 (CreateRepository
        (upstream_request ''npm-upstream'' ''The upstream repository for NPM'')),
      done_at 1000 (AssociateExternalConnection ''test-cdk'' ''npm-upstream'' ''public:npmjs''),
      missing_at 1000 (DescribeRepository ''test-cdk'' ''maven-upstream''),
      done_at 1000 (CreateRepository
        (upstream_request ''maven-upstream'' ''The upstream repository for Maven'')),
      done_at 1000 (AssociateExternalConnection ''test-cdk'' ''maven-upstream''
        ''public:maven-central''),
      missing_at 1000 (DescribeRepository ''test-cdk'' ''nuget-upstream''),
      done_at 1000 (CreateRepository
        (upstream_request ''nuget-upstream'' ''The upstream repository for NuGet'')),
      done_at 1000 (AssociateExternalConnection ''test-cdk'' ''nuget-upstream''
        ''public:nuget-org''),
      missing_at 1000 (DescribeRepository ''test-cdk'' ''pypi-upstream''),
      done_at 1000 (CreateRepository
        (upstream_request ''pypi-upstream'' ''The upstream repository for PyPI'')),
      done_at 1000 (AssociateExternalConnection ''test-cdk'' ''pypi-upstream'' ''public:pypi''),
      done_at 1000 (DescribeRepository ''test-cdk'' ''npm-upstream'')]"

text \<open>
  The registry \<open>w_upstreams\<close> with the sandbox \<open>ghost\<close> as provisioning leaves it, and
  the log of provisioning \<open>ghost\<close> there.
\<close>

definition w_ready :: registry where
  "w_ready = w_upstreams\<lparr>reg_repos := reg_repos w_upstreams @
     [\<lparr>rs_domain = ''test-cdk'', rs_name = ''test-ghost'',
       rs_description = Some ''Testing repository'',
       rs_upstreams = [''npm-upstream'', ''pypi-upstream'', ''nuget-upstream'',
                       ''maven-upstream''],
       rs_tags = [\<lparr>tag_key = ''collect-by'', tag_value = ''86401000''\<rparr>],
       rs_external = []\<rparr>]\<rparr>"

definition ready_log :: "entry list" where
  "ready_log =
     [done_at 1000 (DescribeDomain ''test-cdk''),
      done_at 1000 (DescribeRepository ''test-cdk'' ''npm-upstream''),
      done_at 1000 (DescribeRepository ''test-cdk'' ''maven-upstream''),
      done_at 1000 (DescribeRepository ''test-cdk'' ''nuget-upstream''),
      done_at 1000 (DescribeRepository ''test-cdk'' ''pypi-upstream''),
      done_at 1000 (DescribeRepository ''test-cdk'' ''test-ghost'')]"

text \<open>
  A registry that has the domain only and rejects every association of the first
  upstream, and the log and the registry provisioning ends with.
\<close>

definition w_refused :: registry where
  "w_refused =
     \<lparr>reg_domains = [''test-cdk''], reg_repos = [], reg_clock = 1000,
      reg_faults = [None, None, None, Some boom, Some boom, Some boom, Some boom],
      reg_page_size = 2\<rparr>"

definition refused_call :: "int \<Rightarrow> entry" where
  "refused_call t =
     \<lparr>called = AssociateExternalConnection ''test-cdk'' ''npm-upstream'' ''public:npmjs'',
      time = t, rejection = Some boom\<rparr>"

definition refused_log :: "entry list" where
  "refused_log =
     [done_at 1000 (DescribeDomain ''test-cdk''),
      missing_at 1000 (DescribeRepository ''test-cdk'' ''npm-upstream''),
      done_at 1000 (CreateRepository npm_request),
      refused_call 1000, done_at 1000 (Sleep 500),
      refused_call 1500, done_at 1500 (Sleep 500),
      refused_call 2000, done_at 2000 (Sleep 500),
      refused_call 2500]"

definition w_refused_end :: registry where
  "w_refused_end =
     \<lparr>reg_domains = [''test-cdk''],
      reg_repos = [\<lparr>rs_domain = ''test-cdk'', rs_name = ''npm-upstream'',
                    rs_description = Some ''The upstream repository for NPM'',
                    rs_upstreams = [], rs_tags = [], rs_external = []\<rparr>],
      reg_clock = 2500, reg_faults = [], reg_page_size = 2\<rparr>"

text \<open>
  A registry with one sandbox whose expiry tag holds the empty string, and the log of the
  sweep there.
\<close>

definition w_blank :: registry where
  "w_blank =
     \<lparr>reg_domains = [''test-cdk''],
      reg_repos = [mk_repo ''test-blank'' [\<lparr>tag_key = ''collect-by'', tag_value = ''''\<rparr>]],
      reg_clock = 1000, reg_faults = [], reg_page_size = 2\<rparr>"

definition blank_log :: "entry list" where
  "blank_log =
     [done_at 1000 (DescribeDomain ''test-cdk''),
      done_at 1000 (ListRepositories None),
      done_at 1000 (ListTagsForResource
        (Some ''arn:aws:codeartifact:repository/test-cdk/test-blank'')),
      done_at 1000 (DeleteRepository (Some ''test-cdk'') (Some ''test-blank''))]"

text \<open>
  A client that answers from a snapshot: the three sandboxes of \<open>w_sweep\<close> on two pages,
  their tags, and a clock that stands at \<open>now\<close>. Every call succeeds, and the world
  counts the calls.
\<close>

definition old_sandbox :: repository_summary where
  "old_sandbox = summary_of (mk_repo ''test-old'' [])"

definition older_sandbox :: repository_summary where
  "older_sandbox = summary_of (mk_repo ''test-older'' [])"

definition odd_sandbox :: repository_summary where
  "odd_sandbox = summary_of (mk_repo ''test-odd'' [])"

definition snapshot_pages :: "string option \<Rightarrow> repositories_page" where
  "snapshot_pages token = (case token of
     None \<Rightarrow> \<lparr>repositories = Some [old_sandbox, odd_sandbox], nextToken = Some ''more''\<rparr>
   | Some t \<Rightarrow> \<lparr>repositories = Some [older_sandbox], nextToken = None\<rparr>)"

definition snapshot_tags :: "string option \<Rightarrow> tag list option" where
  "snapshot_tags a =
     (if a = repo_arn old_sandbox then Some [\<lparr>tag_key = ''collect-by'', tag_value = ''500''\<rparr>]
      else if a = repo_arn older_sandbox
        then Some [\<lparr>tag_key = ''collect-by'', tag_value = ''400''\<rparr>]
      else if a = repo_arn odd_sandbox
        then Some [\<lparr>tag_key = ''collect-by'', tag_value = ''soon''\<rparr>]
      else None)"

definition snapshot_client :: "int \<Rightarrow> nat env" where
  "snapshot_client now =
     \<lparr>describeDomain = (\<lambda>d w. (Inr (), Suc w)),
      createDomain = (\<lambda>d ts w. (Inr (), Suc w)),
      describeRepository = (\<lambda>d n w. (Inr (), Suc w)),
      createRepository = (\<lambda>rq w. (Inr (), Suc w)),
      associateExternalConnection = (\<lambda>d n x w. (Inr (), Suc w)),
      deleteRepository = (\<lambda>d n w. (Inr (), Suc w)),
      getAuthorizationToken = (\<lambda>d secs w. (Inr None, Suc w)),
      getRepositoryEndpoint = (\<lambda>d n f w. (Inr None, Suc w)),
      listRepositories = (\<lambda>token w. (Inr (snapshot_pages token), Suc w)),
      listTagsForResource = (\<lambda>a w. (Inr (snapshot_tags a), Suc w)),
      dateNow = (\<lambda>w. now),
      sleep = (\<lambda>ms w. w)\<rparr>"

section \<open>Properties\<close>

subsection \<open>Running the observed client\<close>

lemma logged_run:
  "logged env c op (w, tr) =
     (fst (op w), (snd (op w), tr @ [attempt env c w (rejected (fst (op w)))]))"
  by (simp add: logged_def attempt_def split: prod.splits)

lemma spy_sleep:
  "sleep (spy env) ms (w, tr) = (sleep env ms w, tr @ [attempt env (Sleep ms) w None])"
  by (simp add: spy_def attempt_def)

lemma attempt_sel [simp]:
  "called (attempt env c w r) = c"
  "time (attempt env c w r) = dateNow env w"
  "rejection (attempt env c w r) = r"
  by (simp_all add: attempt_def)

lemma spy_calls:
  "describeDomain (spy env) d = logged env (DescribeDomain d) (describeDomain env d)"
  "createDomain (spy env) d ts = logged env (CreateDomain d ts) (createDomain env d ts)"
  "describeRepository (spy env) d n = logged env (DescribeRepository d n) (describeRepository env d n)"
  "createRepository (spy env) rq = logged env (CreateRepository rq) (createRepository env rq)"
  "associateExternalConnection (spy env) d n x =
     logged env (AssociateExternalConnection d n x) (associateExternalConnection env d n x)"
  "deleteRepository (spy env) od on = logged env (DeleteRepository od on) (deleteRepository env od on)"
  "getAuthorizationToken (spy env) d secs =
     logged env (GetAuthorizationToken d secs) (getAuthorizationToken env d secs)"
  "getRepositoryEndpoint (spy env) d n f =
     logged env (GetRepositoryEndpoint d n f) (getRepositoryEndpoint env d n f)"
  "listRepositories (spy env) t = logged env (ListRepositories t) (listRepositories env t)"
  "listTagsForResource (spy env) a = logged env (ListTagsForResource a) (listTagsForResource env a)"
  "dateNow (spy env) (w, tr) = dateNow env w"
  by (simp_all add: spy_def)

lemmas registry_calls =
  registry_client_def reg_describeDomain_def reg_createDomain_def reg_describeRepository_def
  reg_createRepository_def reg_associateExternalConnection_def reg_deleteRepository_def
  reg_getAuthorizationToken_def reg_getRepositoryEndpoint_def reg_listRepositories_def
  reg_listTagsForResource_def answering_def has_repo_def has_domain_def is_repo_def
  arn_of_def summary_of_def notFound_def conflict_def missingParameter_def

subsection \<open>The conversion of expiry values\<close>

text \<open>
  \<^verbatim>\<open>Number\<close> answers NaN exactly for a text that, without the white space around it, is
  neither empty nor a numeric literal.
\<close>

lemma roundToDouble_number: "roundToDouble negative p q \<noteq> NaN"
  by (simp add: roundToDouble_def Let_def)

lemma strDecimalLiteral_number: "strDecimalLiteral s \<noteq> Some NaN"
  by (auto simp: strDecimalLiteral_def strUnsignedLiteral_def roundToDouble_number
      split: list.splits if_splits)

lemma Number_NaN:
  "(Number str = NaN) =
     (trimString str \<noteq> [] \<and> nonDecimalIntegerLiteral (trimString str) = None
      \<and> strDecimalLiteral (trimString str) = None)"
  using strDecimalLiteral_number [of "trimString str"]
  by (auto simp: Number_def Let_def roundToDouble_number split: option.splits)

lemmas number_run =
  Number_def trimString_def strWhiteSpaceChar_def nonDecimalIntegerLiteral_def
  strDecimalLiteral_def strUnsignedLiteral_def strUnsignedDecimalLiteral_def
  exponentIndicator_def digitValue_def digits_def signedInteger_def roundToDouble_def
  bitLength.simps Let_def

text \<open>The expiry values of the concrete registries.\<close>

lemma number_values:
  "Number ''500'' = Finite 500"
  "Number ''400'' = Finite 400"
  "Number ''soon'' = NaN"
  "Number '''' = Finite 0"
  by (simp_all add: number_run)

subsection \<open>The retry helper\<close>

lemma retry_unfold:
  "retry env block w = (case block w of (Inr a, w') \<Rightarrow> (Inr a, w') | (Inl e, w') \<Rightarrow>
     (case block (sleep env 500 w') of (Inr a, w') \<Rightarrow> (Inr a, w') | (Inl e, w') \<Rightarrow>
     (case block (sleep env 500 w') of (Inr a, w') \<Rightarrow> (Inr a, w') | (Inl e, w') \<Rightarrow>
     (case block (sleep env 500 w') of (Inr a, w') \<Rightarrow> (Inr a, w') | (Inl e, w') \<Rightarrow>
        (Inl e, w')))))"
  by (simp add: retry_def numeral_3_eq_3 split: prod.splits sum.splits)

text \<open>
  Claim C3. For every action \<open>block\<close>, observed under any label \<open>c\<close>: if it is
  rejected twice and then succeeds, the helper returns the success value, and the log
  holds exactly three invocations with a sleep of 500 ms after each rejection; if it is
  always rejected, the helper invokes it exactly four times, sleeps 500 ms between the
  invocations, and raises the rejection of the fourth.
\<close>

theorem retry_attempts:
  fixes block :: "('w, 'a) io"
  shows "(block w0 = (Inl e1, w1) \<and> block (sleep env 500 w1) = (Inl e2, w2)
          \<and> block (sleep env 500 w2) = (Inr v, w3)
        \<longrightarrow> retry (spy env) (logged env c block) (w0, tr) =
              (Inr v, (w3, tr @
                [attempt env c w0 (Some e1), attempt env (Sleep 500) w1 None,
                 attempt env c (sleep env 500 w1) (Some e2), attempt env (Sleep 500) w2 None,
                 attempt env c (sleep env 500 w2) None])))
     \<and> ((\<forall>w. isl (fst (block w)))
        \<longrightarrow> (\<exists>e1 e2 e3 e4 w1 w2 w3 w4.
              block w0 = (Inl e1, w1) \<and> block (sleep env 500 w1) = (Inl e2, w2)
            \<and> block (sleep env 500 w2) = (Inl e3, w3) \<and> block (sleep env 500 w3) = (Inl e4, w4)
            \<and> retry (spy env) (logged env c block) (w0, tr) =
              (Inl e4, (w4, tr @
                [attempt env c w0 (Some e1), attempt env (Sleep 500) w1 None,
                 attempt env c (sleep env 500 w1) (Some e2), attempt env (Sleep 500) w2 None,
                 attempt env c (sleep env 500 w2) (Some e3), attempt env (Sleep 500) w3 None,
                 attempt env c (sleep env 500 w3) (Some e4)]))))"
proof (intro conjI impI)
  assume "block w0 = (Inl e1, w1) \<and> block (sleep env 500 w1) = (Inl e2, w2)
          \<and> block (sleep env 500 w2) = (Inr v, w3)"
  then show "retry (spy env) (logged env c block) (w0, tr) =
              (Inr v, (w3, tr @
                [attempt env c w0 (Some e1), attempt env (Sleep 500) w1 None,
                 attempt env c (sleep env 500 w1) (Some e2), attempt env (Sleep 500) w2 None,
                 attempt env c (sleep env 500 w2) None]))"
    by (simp add: retry_unfold logged_run spy_sleep rejected_def)
next
  assume fails: "\<forall>w. isl (fst (block w))"
  have step: "\<exists>e w'. block w = (Inl e, w')" for w
  proof -
    from fails have "isl (fst (block w))" by blast
    then show ?thesis
      by (cases "block w"; cases "fst (block w)") auto
  qed
  obtain e1 w1 where b1: "block w0 = (Inl e1, w1)" using step by blast
  obtain e2 w2 where b2: "block (sleep env 500 w1) = (Inl e2, w2)" using step by blast
  obtain e3 w3 where b3: "block (sleep env 500 w2) = (Inl e3, w3)" using step by blast
  obtain e4 w4 where b4: "block (sleep env 500 w3) = (Inl e4, w4)" using step by blast
  have "retry (spy env) (logged env c block) (w0, tr) =
              (Inl e4, (w4, tr @
                [attempt env c w0 (Some e1), attempt env (Sleep 500) w1 None,
                 attempt env c (sleep env 500 w1) (Some e2), attempt env (Sleep 500) w2 None,
                 attempt env c (sleep env 500 w2) (Some e3), attempt env (Sleep 500) w3 None,
                 attempt env c (sleep env 500 w3) (Some e4)]))"
    using b1 b2 b3 b4 by (simp add: retry_unfold logged_run spy_sleep rejected_def)
  with b1 b2 b3 b4 show "\<exists>e1 e2 e3 e4 w1 w2 w3 w4.
              block w0 = (Inl e1, w1) \<and> block (sleep env 500 w1) = (Inl e2, w2)
            \<and> block (sleep env 500 w2) = (Inl e3, w3) \<and> block (sleep env 500 w3) = (Inl e4, w4)
            \<and> retry (spy env) (logged env c block) (w0, tr) =
              (Inl e4, (w4, tr @
                [attempt env c w0 (Some e1), attempt env (Sleep 500) w1 None,
                 attempt env c (sleep env 500 w1) (Some e2), attempt env (Sleep 500) w2 None,
                 attempt env c (sleep env 500 w2) (Some e3), attempt env (Sleep 500) w3 None,
                 attempt env c (sleep env 500 w3) (Some e4)]))"
    by blast
qed

text \<open>
  The theorem at the registry \<open>w_flaky\<close>, whose association is rejected twice and then
  accepted, and at an action that is always rejected.
\<close>

theorem retry_attempts_witness:
  "fst (retry (spy registry_client)
         (logged registry_client
            (AssociateExternalConnection ''test-cdk'' ''npm-upstream'' ''public:npmjs'')
            (reg_associateExternalConnection ''test-cdk'' ''npm-upstream'' ''public:npmjs''))
         (w_flaky, [])) = Inr ()
   \<and> fst (retry (spy registry_client)
         (logged registry_client
            (AssociateExternalConnection ''test-cdk'' ''npm-upstream'' ''public:npmjs'')
            (\<lambda>s. (Inl boom, s :: registry)))
         (w_flaky, [])) = (Inl boom :: aws_error + unit)"
proof -
  let ?c = "AssociateExternalConnection ''test-cdk'' ''npm-upstream'' ''public:npmjs''"
  let ?assoc = "reg_associateExternalConnection ''test-cdk'' ''npm-upstream'' ''public:npmjs''"
  let ?w1 = "w_flaky\<lparr>reg_faults := [Some boom, None]\<rparr>"
  let ?w2 = "w_flaky\<lparr>reg_faults := [None], reg_clock := 1500\<rparr>"
  have a1: "?assoc w_flaky = (Inl boom, ?w1)"
    by (simp add: reg_associateExternalConnection_def answering_def w_flaky_def)
  have a2: "?assoc (sleep registry_client 500 ?w1) = (Inl boom, ?w2)"
    by (simp add: reg_associateExternalConnection_def answering_def w_flaky_def
        registry_client_def)
  have "\<exists>w3. ?assoc (sleep registry_client 500 ?w2) = (Inr (), w3)"
    by (simp add: reg_associateExternalConnection_def answering_def w_flaky_def
        registry_client_def has_repo_def has_domain_def is_repo_def)
  then obtain w3 where a3: "?assoc (sleep registry_client 500 ?w2) = (Inr (), w3)"
    by blast
  have always: "\<forall>w. isl (fst ((\<lambda>s. (Inl boom :: aws_error + unit, s :: registry)) w))"
    by simp
  from retry_attempts [of ?assoc w_flaky boom ?w1 registry_client boom ?w2 "()" w3 ?c "[]"]
    a1 a2 a3
  have first: "fst (retry (spy registry_client) (logged registry_client ?c ?assoc)
         (w_flaky, [])) = Inr ()"
    by simp
  from retry_attempts [of "\<lambda>s. (Inl boom :: aws_error + unit, s :: registry)" w_flaky _ _
      registry_client _ _ _ _ ?c "[]"] always
  have second: "fst (retry (spy registry_client)
         (logged registry_client ?c (\<lambda>s. (Inl boom, s :: registry)))
         (w_flaky, [])) = (Inl boom :: aws_error + unit)"
    by auto
  from first second show ?thesis by simp
qed

subsection \<open>The sweep, one repository at a time\<close>

text \<open>
  The loops of the sweep run the body on every repository of a page in order, and stop at
  the first rejection; a sweep that has returned returns the same with more fuel; one unit
  suffices for a page without a continuation token.
\<close>

lemma gc_page_bind:
  "gc_page env (repo # rest) = bind_io (gc_repo env repo) (\<lambda>_. gc_page env rest)"
  by (rule ext) (simp add: bind_io_def split: prod.splits sum.splits)

lemma gc_page_each:
  "gc_page env (before @ repo # rest) =
     bind_io (gc_page env before) (\<lambda>_. bind_io (gc_repo env repo) (\<lambda>_. gc_page env rest))"
proof (induction before)
  case Nil
  show ?case
    by (rule ext) (simp add: bind_io_def split: prod.splits sum.splits)
next
  case (Cons a before)
  show ?case
    by (rule ext) (simp add: Cons bind_io_def split: prod.splits sum.splits)
qed

lemma gc_last_page:
  assumes "listRepositories env token w = (Inr page, w1)"
    and "\<not> truthy (nextToken page)"
  shows "gc_pages env (Suc fuel) token w =
     (Some (fst (gc_page env (case repositories page of None \<Rightarrow> [] | Some rs \<Rightarrow> rs) w1)),
      snd (gc_page env (case repositories page of None \<Rightarrow> [] | Some rs \<Rightarrow> rs) w1))"
  using assms by (auto split: prod.splits sum.splits)

lemma gc_pages_more_fuel:
  "fst (gc_pages env fuel token w) = Some r \<Longrightarrow>
   gc_pages env (fuel + extra) token w = gc_pages env fuel token w"
proof (induction fuel arbitrary: token w)
  case 0
  then show ?case by simp
next
  case (Suc fuel)
  then show ?case
    by (auto split: prod.splits sum.splits if_splits)
qed

lemma gc_more_fuel:
  "fst (gc env fuel w) = Some r \<Longrightarrow> gc env (fuel + extra) w = gc env fuel w"
  by (auto simp: gc_def gc_pages_more_fuel split: prod.splits sum.splits if_splits)

lemma deletions_append: "deletions (xs @ ys) = deletions xs @ deletions ys"
  by (induction xs) (auto split: call.splits)

lemma examined_append: "examined (xs @ ys) = examined xs @ examined ys"
  by (induction xs) (auto split: call.splits)

lemma collectable_expired:
  "(collectable env w tags \<noteq> None) = expired (dateNow env w) tags"
  by (cases tags) (auto simp: collectable_def expired_def COLLECT_BY_TAG_def find_None_iff)

lemma collectable_spy: "collectable (spy env) (w, tr) tags = collectable env w tags"
  by (cases tags) (simp_all add: collectable_def spy_calls)

lemma gc_repo_run:
  assumes "listTagsForResource env (repo_arn repo) w = (Inr tags, w1)"
  shows "gc_repo (spy env) repo (w, tr) =
     (if expired (dateNow env w1) tags
      then logged env (DeleteRepository (repo_domainName repo) (repo_name repo))
             (deleteRepository env (repo_domainName repo) (repo_name repo))
             (w1, tr @ [attempt env (ListTagsForResource (repo_arn repo)) w None])
      else (Inr (), (w1, tr @ [attempt env (ListTagsForResource (repo_arn repo)) w None])))"
proof (cases "collectable env w1 tags")
  case None
  with collectable_expired [of env w1 tags] have "\<not> expired (dateNow env w1) tags" by simp
  with None assms show ?thesis
    by (simp add: gc_repo_def bind_io_def spy_calls logged_run rejected_def collectable_spy)
next
  case (Some t)
  with collectable_expired [of env w1 tags] have "expired (dateNow env w1) tags" by simp
  with Some assms show ?thesis
    by (simp add: gc_repo_def bind_io_def spy_calls logged_run rejected_def collectable_spy)
qed

lemma domain_probe:
  assumes "describeDomain env ''test-cdk'' w = (Inr (), w0)"
  shows "gc (spy env) fuel (w, tr) =
     gc_pages (spy env) fuel None (w0, tr @ [attempt env (DescribeDomain ''test-cdk'') w None])"
  using assms
  by (simp add: gc_def domainExists_def existing_def domain_def DEFAULT_DOMAIN_def spy_calls
      logged_run rejected_def)

subsection \<open>The sweep of a listing\<close>

text \<open>
  The sweep against a client that answers the listing and the tag requests from a
  snapshot, whatever the world: page after page, it reads the tags of every repository
  and deletes those that pass the test.
\<close>

lemma gc_repo_snapshot:
  assumes tags: "\<And>arn w. fst (listTagsForResource env arn w) = Inr (tagsOf arn)"
    and clock: "\<And>w. dateNow env w = now"
    and deleted: "\<And>d n w. fst (deleteRepository env d n w) = Inr ()"
  shows "\<exists>w' seg. gc_repo (spy env) repo (w, tr) = (Inr (), (w', tr @ seg))
     \<and> examined seg = [repo_arn repo]
     \<and> deletions seg = (if expired now (tagsOf (repo_arn repo))
                         then [(repo_domainName repo, repo_name repo)] else [])"
proof -
  let ?a = "attempt env (ListTagsForResource (repo_arn repo)) w None"
  obtain w1 where t: "listTagsForResource env (repo_arn repo) w = (Inr (tagsOf (repo_arn repo)), w1)"
    using tags [of "repo_arn repo" w] by (cases "listTagsForResource env (repo_arn repo) w") simp
  show ?thesis
  proof (cases "expired now (tagsOf (repo_arn repo))")
    case True
    let ?d = "attempt env (DeleteRepository (repo_domainName repo) (repo_name repo)) w1 None"
    obtain w2 where "deleteRepository env (repo_domainName repo) (repo_name repo) w1 = (Inr (), w2)"
      using deleted [of "repo_domainName repo" "repo_name repo" w1]
      by (cases "deleteRepository env (repo_domainName repo) (repo_name repo) w1") simp
    with True gc_repo_run [OF t, of tr] clock
    have "gc_repo (spy env) repo (w, tr) = (Inr (), (w2, tr @ [?a, ?d]))"
      by (simp add: logged_run rejected_def)
    moreover have "examined [?a, ?d] = [repo_arn repo]"
      and "deletions [?a, ?d] = [(repo_domainName repo, repo_name repo)]"
      by simp_all
    ultimately show ?thesis using True by auto
  next
    case False
    with gc_repo_run [OF t, of tr] clock
    have "gc_repo (spy env) repo (w, tr) = (Inr (), (w1, tr @ [?a]))"
      by simp
    moreover have "examined [?a] = [repo_arn repo]" and "deletions [?a] = []"
      by simp_all
    ultimately show ?thesis using False by auto
  qed
qed

lemma gc_page_snapshot:
  assumes tags: "\<And>arn w. fst (listTagsForResource env arn w) = Inr (tagsOf arn)"
    and clock: "\<And>w. dateNow env w = now"
    and deleted: "\<And>d n w. fst (deleteRepository env d n w) = Inr ()"
  shows "\<exists>w' seg. gc_page (spy env) repos (w, tr) = (Inr (), (w', tr @ seg))
     \<and> examined seg = map repo_arn repos
     \<and> deletions seg = map (\<lambda>r. (repo_domainName r, repo_name r))
                         (filter (\<lambda>r. expired now (tagsOf (repo_arn r))) repos)"
proof (induction repos arbitrary: w tr)
  case Nil
  show ?case by simp
next
  case (Cons repo rest)
  from gc_repo_snapshot [where env = env and tagsOf = tagsOf and now = now, OF tags clock deleted,
      of repo w tr]
  obtain w1 seg1 where one: "gc_repo (spy env) repo (w, tr) = (Inr (), (w1, tr @ seg1))"
    and e1: "examined seg1 = [repo_arn repo]"
    and d1: "deletions seg1 = (if expired now (tagsOf (repo_arn repo))
                         then [(repo_domainName repo, repo_name repo)] else [])"
    by blast
  from Cons [of w1 "tr @ seg1"]
  obtain w2 seg2 where more: "gc_page (spy env) rest (w1, tr @ seg1) = (Inr (), (w2, (tr @ seg1) @ seg2))"
    and e2: "examined seg2 = map repo_arn rest"
    and d2: "deletions seg2 = map (\<lambda>r. (repo_domainName r, repo_name r))
                         (filter (\<lambda>r. expired now (tagsOf (repo_arn r))) rest)"
    by blast
  from one more have "gc_page (spy env) (repo # rest) (w, tr) = (Inr (), (w2, tr @ (seg1 @ seg2)))"
    by simp
  moreover from e1 e2 have "examined (seg1 @ seg2) = map repo_arn (repo # rest)"
    by (simp add: examined_append)
  moreover from d1 d2 have "deletions (seg1 @ seg2) = map (\<lambda>r. (repo_domainName r, repo_name r))
                         (filter (\<lambda>r. expired now (tagsOf (repo_arn r))) (repo # rest))"
    by (simp add: deletions_append)
  ultimately show ?case by blast
qed

lemma gc_pages_snapshot:
  assumes pages: "\<And>token w. fst (listRepositories env token w) = Inr (pageOf token)"
    and tags: "\<And>arn w. fst (listTagsForResource env arn w) = Inr (tagsOf arn)"
    and clock: "\<And>w. dateNow env w = now"
    and deleted: "\<And>d n w. fst (deleteRepository env d n w) = Inr ()"
    and listed: "listing pageOf fuel token = Some repos"
  shows "\<exists>w' seg. gc_pages (spy env) fuel token (w, tr) = (Some (Inr ()), (w', tr @ seg))
     \<and> examined seg = map repo_arn repos
     \<and> deletions seg = map (\<lambda>r. (repo_domainName r, repo_name r))
                         (filter (\<lambda>r. expired now (tagsOf (repo_arn r))) repos)"
  using listed
proof (induction fuel arbitrary: token w tr repos)
  case 0
  then show ?case by simp
next
  case (Suc fuel)
  let ?page = "pageOf token"
  let ?here = "case repositories ?page of None \<Rightarrow> [] | Some rs \<Rightarrow> rs"
  let ?l = "attempt env (ListRepositories token) w None"
  obtain w1 where "listRepositories env token w = (Inr ?page, w1)"
    using pages [of token w] by (cases "listRepositories env token w") simp
  then have call: "listRepositories (spy env) token (w, tr) = (Inr ?page, (w1, tr @ [?l]))"
    by (simp add: spy_calls logged_run rejected_def)
  from gc_page_snapshot [where env = env and tagsOf = tagsOf and now = now, OF tags clock deleted,
      of ?here w1 "tr @ [?l]"]
  obtain w2 seg2 where page: "gc_page (spy env) ?here (w1, tr @ [?l]) = (Inr (), (w2, (tr @ [?l]) @ seg2))"
    and e2: "examined seg2 = map repo_arn ?here"
    and d2: "deletions seg2 = map (\<lambda>r. (repo_domainName r, repo_name r))
                         (filter (\<lambda>r. expired now (tagsOf (repo_arn r))) ?here)"
    by blast
  show ?case
  proof (cases "truthy (nextToken ?page)")
    case False
    with Suc.prems have here: "repos = ?here" by (simp add: Let_def)
    from False call page
    have "gc_pages (spy env) (Suc fuel) token (w, tr) = (Some (Inr ()), (w2, tr @ (?l # seg2)))"
      by simp
    moreover from e2 here have "examined (?l # seg2) = map repo_arn repos" by simp
    moreover from d2 here have "deletions (?l # seg2) = map (\<lambda>r. (repo_domainName r, repo_name r))
                         (filter (\<lambda>r. expired now (tagsOf (repo_arn r))) repos)"
      by simp
    ultimately show ?thesis by blast
  next
    case True
    with Suc.prems obtain later where later: "listing pageOf fuel (nextToken ?page) = Some later"
      and all: "repos = ?here @ later"
      by (auto simp: Let_def)
    from Suc.IH [OF later, of w2 "(tr @ [?l]) @ seg2"]
    obtain w3 seg3 where rest: "gc_pages (spy env) fuel (nextToken ?page) (w2, (tr @ [?l]) @ seg2)
          = (Some (Inr ()), (w3, ((tr @ [?l]) @ seg2) @ seg3))"
      and e3: "examined seg3 = map repo_arn later"
      and d3: "deletions seg3 = map (\<lambda>r. (repo_domainName r, repo_name r))
                         (filter (\<lambda>r. expired now (tagsOf (repo_arn r))) later)"
      by blast
    from True call page rest
    have "gc_pages (spy env) (Suc fuel) token (w, tr)
        = (Some (Inr ()), (w3, tr @ (?l # seg2 @ seg3)))"
      by simp
    moreover from e2 e3 all have "examined (?l # seg2 @ seg3) = map repo_arn repos"
      by (simp add: examined_append)
    moreover from d2 d3 all
    have "deletions (?l # seg2 @ seg3) = map (\<lambda>r. (repo_domainName r, repo_name r))
                         (filter (\<lambda>r. expired now (tagsOf (repo_arn r))) repos)"
      by (simp add: deletions_append)
    ultimately show ?thesis by blast
  qed
qed

lemmas snapshot_run =
  snapshot_client_def snapshot_pages_def snapshot_tags_def old_sandbox_def older_sandbox_def
  odd_sandbox_def summary_of_def mk_repo_def arn_of_def

subsection \<open>The sweep on the reference registry\<close>

text \<open>One repository, and one page, of a sweep on the reference registry.\<close>

lemma find_first:
  "\<forall>x \<in> set kept. \<not> P x \<Longrightarrow> P r \<Longrightarrow> find P (kept @ r # rest) = Some r"
  by (induction kept) simp_all

lemma filter_only:
  "\<forall>x \<in> set kept. P x \<Longrightarrow> \<not> P r \<Longrightarrow> \<forall>x \<in> set rest. P x \<Longrightarrow>
   filter P (kept @ r # rest) = kept @ rest"
  by (induction kept) simp_all

lemma is_repo_arn: "is_repo (rs_domain r) (rs_name r) x \<Longrightarrow> repo_arn_of x = repo_arn_of r"
  by (simp add: is_repo_def repo_arn_of_def)

lemma gc_repo_registry:
  assumes calm: "reg_faults s = []"
    and repos: "reg_repos s = kept @ r # rest"
    and dist: "distinct (map repo_arn_of (kept @ r # rest))"
    and dom: "has_domain s (rs_domain r)"
  shows "\<exists>seg. gc_repo (spy registry_client) (summary_of r) (s, tr) =
      (Inr (), (if repo_expired (reg_clock s) r then s\<lparr>reg_repos := kept @ rest\<rparr> else s,
                tr @ seg))
    \<and> deletions seg = (if repo_expired (reg_clock s) r then [repo_id r] else [])"
proof -
  let ?d = "rs_domain r" and ?n = "rs_name r"
  from dist have "repo_arn_of r \<notin> repo_arn_of ` set kept" "repo_arn_of r \<notin> repo_arn_of ` set rest"
    by simp_all
  then have others: "\<forall>x \<in> set kept \<union> set rest. repo_arn_of x \<noteq> repo_arn_of r"
    by (metis Un_iff image_eqI)
  then have first: "find (\<lambda>x. arn_of (rs_domain x) (rs_name x) = arn_of ?d ?n) (kept @ r # rest)
      = Some r"
    by (intro find_first) (auto simp: repo_arn_of_def)
  have tags: "listTagsForResource registry_client (repo_arn (summary_of r)) s
      = (Inr (Some (rs_tags r)), s)"
    using calm repos first
    by (simp add: registry_client_def reg_listTagsForResource_def answering_def summary_of_def)
  have test: "expired (reg_clock s) (Some (rs_tags r)) = repo_expired (reg_clock s) r"
    by (simp add: expired_def repo_expired_def)
  have clock: "dateNow registry_client s = reg_clock s"
    by (simp add: registry_client_def)
  from others have "\<forall>x \<in> set kept \<union> set rest. \<not> is_repo ?d ?n x"
    using is_repo_arn by blast
  then have gone: "filter (\<lambda>x. \<not> is_repo ?d ?n x) (kept @ r # rest) = kept @ rest"
    by (intro filter_only) (auto simp: is_repo_def)
  have del: "deleteRepository registry_client (Some ?d) (Some ?n) s
      = (Inr (), s\<lparr>reg_repos := kept @ rest\<rparr>)"
    using calm repos dom gone
    by (simp add: registry_client_def reg_deleteRepository_def answering_def has_repo_def
        is_repo_def)
  show ?thesis
  proof (cases "repo_expired (reg_clock s) r")
    case True
    with gc_repo_run [OF tags, of tr, unfolded clock] test del show ?thesis
      by (simp add: logged_run summary_of_def repo_id_def deletions_append)
  next
    case False
    with gc_repo_run [OF tags, of tr, unfolded clock] test show ?thesis
      by (simp add: summary_of_def)
  qed
qed

lemma gc_page_registry:
  assumes "reg_faults s = []"
    and "reg_repos s = kept @ todo"
    and "distinct (map repo_arn_of (kept @ todo))"
    and "\<forall>r \<in> set todo. has_domain s (rs_domain r)"
  shows "\<exists>seg. gc_page (spy registry_client) (map summary_of todo) (s, tr) =
      (Inr (), (s\<lparr>reg_repos := kept @ filter (\<lambda>r. \<not> repo_expired (reg_clock s) r) todo\<rparr>,
                tr @ seg))
    \<and> deletions seg = map repo_id (filter (repo_expired (reg_clock s)) todo)"
  using assms
proof (induction todo arbitrary: s kept tr)
  case Nil
  then show ?case by simp
next
  case (Cons r rest)
  from gc_repo_registry [OF Cons.prems(1,2,3), of tr] Cons.prems(4)
  obtain seg1 where step: "gc_repo (spy registry_client) (summary_of r) (s, tr) =
      (Inr (), (if repo_expired (reg_clock s) r then s\<lparr>reg_repos := kept @ rest\<rparr> else s,
                tr @ seg1))"
    and del1: "deletions seg1 = (if repo_expired (reg_clock s) r then [repo_id r] else [])"
    by auto
  show ?case
  proof (cases "repo_expired (reg_clock s) r")
    case True
    let ?s1 = "s\<lparr>reg_repos := kept @ rest\<rparr>"
    from Cons.prems have "reg_faults ?s1 = []" "reg_repos ?s1 = kept @ rest"
      "distinct (map repo_arn_of (kept @ rest))" "\<forall>x \<in> set rest. has_domain ?s1 (rs_domain x)"
      by (simp_all add: has_domain_def)
    from Cons.IH [OF this, of "tr @ seg1"] obtain seg2
      where rest: "gc_page (spy registry_client) (map summary_of rest) (?s1, tr @ seg1) =
          (Inr (), (?s1\<lparr>reg_repos := kept @ filter (\<lambda>r. \<not> repo_expired (reg_clock ?s1) r) rest\<rparr>,
                    (tr @ seg1) @ seg2))"
        and del2: "deletions seg2 = map repo_id (filter (repo_expired (reg_clock ?s1)) rest)"
      by blast
    from True step rest have "gc_page (spy registry_client) (map summary_of (r # rest)) (s, tr) =
        (Inr (), (s\<lparr>reg_repos := kept @ filter (\<lambda>r. \<not> repo_expired (reg_clock s) r) (r # rest)\<rparr>,
                  tr @ (seg1 @ seg2)))"
      by simp
    moreover from True del1 del2
    have "deletions (seg1 @ seg2) = map repo_id (filter (repo_expired (reg_clock s)) (r # rest))"
      by (simp add: deletions_append)
    ultimately show ?thesis by blast
  next
    case False
    from Cons.prems have "reg_faults s = []" "reg_repos s = (kept @ [r]) @ rest"
      "distinct (map repo_arn_of ((kept @ [r]) @ rest))" "\<forall>x \<in> set rest. has_domain s (rs_domain x)"
      by simp_all
    from Cons.IH [OF this, of "tr @ seg1"] obtain seg2
      where rest: "gc_page (spy registry_client) (map summary_of rest) (s, tr @ seg1) =
          (Inr (), (s\<lparr>reg_repos := (kept @ [r]) @ filter (\<lambda>r. \<not> repo_expired (reg_clock s) r) rest\<rparr>,
                    (tr @ seg1) @ seg2))"
        and del2: "deletions seg2 = map repo_id (filter (repo_expired (reg_clock s)) rest)"
      by blast
    from False step rest have "gc_page (spy registry_client) (map summary_of (r # rest)) (s, tr) =
        (Inr (), (s\<lparr>reg_repos := kept @ filter (\<lambda>r. \<not> repo_expired (reg_clock s) r) (r # rest)\<rparr>,
                  tr @ (seg1 @ seg2)))"
      by simp
    moreover from False del1 del2
    have "deletions (seg1 @ seg2) = map repo_id (filter (repo_expired (reg_clock s)) (r # rest))"
      by (simp add: deletions_append)
    ultimately show ?thesis by blast
  qed
qed

text \<open>
  The whole sweep on the reference registry, when no rejection is injected, the
  repositories are listed under distinct names in domains the registry holds, and one
  page holds them all: the sweep succeeds, it calls \<^verbatim>\<open>deleteRepository\<close> for exactly the
  repositories whose tags pass the test, in the order of the page, and exactly these are
  gone afterwards.
\<close>

lemma sweep_single_page:
  assumes calm: "reg_faults s = []"
    and dom: "has_domain s ''test-cdk''"
    and dist: "distinct (map repo_arn_of (reg_repos s))"
    and doms: "\<forall>r \<in> set (reg_repos s). has_domain s (rs_domain r)"
    and small: "length (reg_repos s) \<le> reg_page_size s"
  shows "\<exists>tr. gc (spy registry_client) (Suc fuel) (s, []) =
      (Some (Inr ()), (s\<lparr>reg_repos := filter (\<lambda>r. \<not> repo_expired (reg_clock s) r) (reg_repos s)\<rparr>,
                       tr))
    \<and> deletions tr = map repo_id (filter (repo_expired (reg_clock s)) (reg_repos s))"
proof -
  let ?head = "[attempt registry_client (DescribeDomain ''test-cdk'') s None,
      attempt registry_client (ListRepositories None) s None]"
  from gc_page_registry [OF calm _ _ doms, of "[]" ?head] dist
  obtain seg where page: "gc_page (spy registry_client) (map summary_of (reg_repos s)) (s, ?head) =
      (Inr (), (s\<lparr>reg_repos := filter (\<lambda>r. \<not> repo_expired (reg_clock s) r) (reg_repos s)\<rparr>,
                ?head @ seg))"
    and del: "deletions seg = map repo_id (filter (repo_expired (reg_clock s)) (reg_repos s))"
    by auto
  from calm dom small page
  have "gc (spy registry_client) (Suc fuel) (s, []) =
      (Some (Inr ()), (s\<lparr>reg_repos := filter (\<lambda>r. \<not> repo_expired (reg_clock s) r) (reg_repos s)\<rparr>,
                       ?head @ seg))"
    by (simp add: gc_def domainExists_def existing_def domain_def DEFAULT_DOMAIN_def truthy_def
        spy_calls logged_run rejected_def registry_client_def reg_describeDomain_def
        reg_listRepositories_def answering_def)
  moreover from del have "deletions (?head @ seg)
      = map repo_id (filter (repo_expired (reg_clock s)) (reg_repos s))"
    by (simp add: deletions_append)
  ultimately show ?thesis by blast
qed

subsection \<open>What the sweep deletes\<close>

text \<open>
  Claim C1. Let the registry hold the domain, answer the listing with the pages
  \<open>pageOf\<close> and the tag requests with \<open>tagsOf\<close>, accept every deletion, and let the
  clock read \<open>now\<close> during the sweep. Let \<open>repos\<close> be the repositories the pagination
  returns, the last page coming within the fuel. Then the sweep returns without a
  rejection; it reads the tags of every one of these repositories, once and in order; and
  it calls \<^verbatim>\<open>deleteRepository\<close> for exactly those among them that have a tag with the key
  \<^verbatim>\<open>collect-by\<close> and a value that \<^verbatim>\<open>Number\<close> converts to a number strictly less than
  \<open>now\<close>, in order and once each. A repository without a \<^verbatim>\<open>collect-by\<close> tag fails the
  test, so no deletion is called for it.

  And on the reference registry, where a deletion removes the repository and the clock is
  part of the state: when no rejection is injected, the repositories are held under
  distinct names in domains the registry holds, and one page holds them all, the sweep
  returns without a rejection, it calls \<^verbatim>\<open>deleteRepository\<close> for exactly the repositories
  whose tags pass the test at the clock of the registry, and exactly these are gone
  afterwards.
\<close>

theorem sweep_deletes_expired:
  assumes domain: "\<And>w. fst (describeDomain env ''test-cdk'' w) = Inr ()"
    and pages: "\<And>token w. fst (listRepositories env token w) = Inr (pageOf token)"
    and tags: "\<And>arn w. fst (listTagsForResource env arn w) = Inr (tagsOf arn)"
    and clock: "\<And>w. dateNow env w = now"
    and deleted: "\<And>d n w. fst (deleteRepository env d n w) = Inr ()"
    and listed: "listing pageOf fuel None = Some repos"
  shows "(\<exists>w' tr. gc (spy env) fuel (w, []) = (Some (Inr ()), (w', tr))
       \<and> examined tr = map repo_arn repos
       \<and> deletions tr = map (\<lambda>r. (repo_domainName r, repo_name r))
           (filter (\<lambda>r. \<exists>t \<in> set (case tagsOf (repo_arn r) of None \<Rightarrow> [] | Some ts \<Rightarrow> ts).
                           tag_key t = ''collect-by'' \<and> js_less (Number (tag_value t)) now)
              repos))
     \<and> (reg_faults s = [] \<and> has_domain s ''test-cdk''
          \<and> distinct (map repo_arn_of (reg_repos s))
          \<and> (\<forall>r \<in> set (reg_repos s). has_domain s (rs_domain r))
          \<and> length (reg_repos s) \<le> reg_page_size s
        \<longrightarrow> (\<exists>tr. gc (spy registry_client) (Suc budget) (s, []) =
                (Some (Inr ()),
                 (s\<lparr>reg_repos := filter (\<lambda>r. \<not> repo_expired (reg_clock s) r) (reg_repos s)\<rparr>, tr))
              \<and> deletions tr = map repo_id (filter (repo_expired (reg_clock s)) (reg_repos s))))"
proof (intro conjI impI)
  let ?p = "attempt env (DescribeDomain ''test-cdk'') w None"
  obtain w0 where "describeDomain env ''test-cdk'' w = (Inr (), w0)"
    using domain [of w] by (cases "describeDomain env ''test-cdk'' w") simp
  then have start: "gc (spy env) fuel (w, []) = gc_pages (spy env) fuel None (w0, [] @ [?p])"
    by (rule domain_probe)
  from gc_pages_snapshot [where env = env and tagsOf = tagsOf and now = now and pageOf = pageOf,
      OF pages tags clock deleted listed, of w0 "[] @ [?p]"]
  obtain w' seg where run: "gc_pages (spy env) fuel None (w0, [] @ [?p])
        = (Some (Inr ()), (w', ([] @ [?p]) @ seg))"
    and e: "examined seg = map repo_arn repos"
    and d: "deletions seg = map (\<lambda>r. (repo_domainName r, repo_name r))
                         (filter (\<lambda>r. expired now (tagsOf (repo_arn r))) repos)"
    by blast
  from start run have "gc (spy env) fuel (w, []) = (Some (Inr ()), (w', ?p # seg))"
    by simp
  moreover from e have "examined (?p # seg) = map repo_arn repos" by simp
  moreover from d have "deletions (?p # seg) = map (\<lambda>r. (repo_domainName r, repo_name r))
         (filter (\<lambda>r. \<exists>t \<in> set (case tagsOf (repo_arn r) of None \<Rightarrow> [] | Some ts \<Rightarrow> ts).
                         tag_key t = ''collect-by'' \<and> js_less (Number (tag_value t)) now)
            repos)"
    by (simp add: expired_def)
  ultimately show "\<exists>w' tr. gc (spy env) fuel (w, []) = (Some (Inr ()), (w', tr))
       \<and> examined tr = map repo_arn repos
       \<and> deletions tr = map (\<lambda>r. (repo_domainName r, repo_name r))
           (filter (\<lambda>r. \<exists>t \<in> set (case tagsOf (repo_arn r) of None \<Rightarrow> [] | Some ts \<Rightarrow> ts).
                           tag_key t = ''collect-by'' \<and> js_less (Number (tag_value t)) now)
              repos)"
    by blast
next
  assume "reg_faults s = [] \<and> has_domain s ''test-cdk''
          \<and> distinct (map repo_arn_of (reg_repos s))
          \<and> (\<forall>r \<in> set (reg_repos s). has_domain s (rs_domain r))
          \<and> length (reg_repos s) \<le> reg_page_size s"
  then show "\<exists>tr. gc (spy registry_client) (Suc budget) (s, []) =
                (Some (Inr ()),
                 (s\<lparr>reg_repos := filter (\<lambda>r. \<not> repo_expired (reg_clock s) r) (reg_repos s)\<rparr>, tr))
              \<and> deletions tr = map repo_id (filter (repo_expired (reg_clock s)) (reg_repos s))"
    using sweep_single_page [of s budget] by blast
qed

text \<open>
  The theorem at the snapshot client with the clock at 1000, where the three sandboxes
  come on two pages, and at the registry \<open>w_sweep\<close> with pages of three: the two
  sandboxes tagged 500 and 400 are deleted, and the one tagged \<^verbatim>\<open>soon\<close> is not.
\<close>

theorem sweep_deletes_expired_witness:
  "listing snapshot_pages 2 None = Some [old_sandbox, odd_sandbox, older_sandbox]
   \<and> (\<exists>w' tr. gc (spy (snapshot_client 1000)) 2 (0, []) = (Some (Inr ()), (w', tr))
        \<and> examined tr = [repo_arn old_sandbox, repo_arn odd_sandbox, repo_arn older_sandbox]
        \<and> deletions tr = [(Some ''test-cdk'', Some ''test-old''),
                          (Some ''test-cdk'', Some ''test-older'')])
   \<and> (\<exists>tr. gc (spy registry_client) 1 (w_sweep\<lparr>reg_page_size := 3\<rparr>, []) =
          (Some (Inr ()),
           (w_sweep\<lparr>reg_page_size := 3,
              reg_repos := [mk_repo ''test-odd'' [\<lparr>tag_key = ''collect-by'', tag_value = ''soon''\<rparr>]]\<rparr>,
            tr))
        \<and> deletions tr = [(Some ''test-cdk'', Some ''test-old''),
                          (Some ''test-cdk'', Some ''test-older'')])"
proof -
  let ?s = "w_sweep\<lparr>reg_page_size := 3\<rparr>"
  have listed: "listing snapshot_pages 2 None = Some [old_sandbox, odd_sandbox, older_sandbox]"
    by (simp add: numeral_2_eq_2 snapshot_pages_def truthy_def)
  have held: "reg_faults ?s = [] \<and> has_domain ?s ''test-cdk''
          \<and> distinct (map repo_arn_of (reg_repos ?s))
          \<and> (\<forall>r \<in> set (reg_repos ?s). has_domain ?s (rs_domain r))
          \<and> length (reg_repos ?s) \<le> reg_page_size ?s"
    by (simp add: w_sweep_def mk_repo_def has_domain_def repo_arn_of_def arn_of_def)
  have both: "(\<exists>w' tr. gc (spy (snapshot_client 1000)) 2 (0, []) = (Some (Inr ()), (w', tr))
       \<and> examined tr = map repo_arn [old_sandbox, odd_sandbox, older_sandbox]
       \<and> deletions tr = map (\<lambda>r. (repo_domainName r, repo_name r))
           (filter (\<lambda>r. \<exists>t \<in> set (case snapshot_tags (repo_arn r) of None \<Rightarrow> [] | Some ts \<Rightarrow> ts).
                           tag_key t = ''collect-by'' \<and> js_less (Number (tag_value t)) 1000)
              [old_sandbox, odd_sandbox, older_sandbox]))
     \<and> (reg_faults ?s = [] \<and> has_domain ?s ''test-cdk''
          \<and> distinct (map repo_arn_of (reg_repos ?s))
          \<and> (\<forall>r \<in> set (reg_repos ?s). has_domain ?s (rs_domain r))
          \<and> length (reg_repos ?s) \<le> reg_page_size ?s
        \<longrightarrow> (\<exists>tr. gc (spy registry_client) (Suc 0) (?s, []) =
                (Some (Inr ()),
                 (?s\<lparr>reg_repos := filter (\<lambda>r. \<not> repo_expired (reg_clock ?s) r) (reg_repos ?s)\<rparr>, tr))
              \<and> deletions tr = map repo_id (filter (repo_expired (reg_clock ?s)) (reg_repos ?s))))"
    by (rule sweep_deletes_expired [where pageOf = snapshot_pages and tagsOf = snapshot_tags])
       (simp_all add: snapshot_client_def listed)
  with held have registry: "\<exists>tr. gc (spy registry_client) (Suc 0) (?s, []) =
                (Some (Inr ()),
                 (?s\<lparr>reg_repos := filter (\<lambda>r. \<not> repo_expired (reg_clock ?s) r) (reg_repos ?s)\<rparr>, tr))
              \<and> deletions tr = map repo_id (filter (repo_expired (reg_clock ?s)) (reg_repos ?s))"
    by blast
  from both have snapshot: "\<exists>w' tr. gc (spy (snapshot_client 1000)) 2 (0, []) = (Some (Inr ()), (w', tr))
       \<and> examined tr = map repo_arn [old_sandbox, odd_sandbox, older_sandbox]
       \<and> deletions tr = map (\<lambda>r. (repo_domainName r, repo_name r))
           (filter (\<lambda>r. \<exists>t \<in> set (case snapshot_tags (repo_arn r) of None \<Rightarrow> [] | Some ts \<Rightarrow> ts).
                           tag_key t = ''collect-by'' \<and> js_less (Number (tag_value t)) 1000)
              [old_sandbox, odd_sandbox, older_sandbox])"
    by blast
  from snapshot have first: "\<exists>w' tr. gc (spy (snapshot_client 1000)) 2 (0, []) = (Some (Inr ()), (w', tr))
        \<and> examined tr = [repo_arn old_sandbox, repo_arn odd_sandbox, repo_arn older_sandbox]
        \<and> deletions tr = [(Some ''test-cdk'', Some ''test-old''),
                          (Some ''test-cdk'', Some ''test-older'')]"
    by (simp add: snapshot_tags_def old_sandbox_def older_sandbox_def odd_sandbox_def
        summary_of_def mk_repo_def arn_of_def number_values)
  from registry have second: "\<exists>tr. gc (spy registry_client) 1 (?s, []) =
          (Some (Inr ()),
           (w_sweep\<lparr>reg_page_size := 3,
              reg_repos := [mk_repo ''test-odd'' [\<lparr>tag_key = ''collect-by'', tag_value = ''soon''\<rparr>]]\<rparr>,
            tr))
        \<and> deletions tr = [(Some ''test-cdk'', Some ''test-old''),
                          (Some ''test-cdk'', Some ''test-older'')]"
    by (simp add: w_sweep_def mk_repo_def repo_expired_def repo_id_def number_values)
  from listed first second show ?thesis by blast
qed

subsection \<open>Expiry values that are not numbers\<close>

text \<open>
  Whatever the rest of the registry does, the sweep calls no deletion for a repository
  whose tags fail the test at every clock reading.
\<close>

lemma gc_repo_keeps:
  assumes tags: "\<And>arn w. fst (listTagsForResource env arn w) = Inr (tagsOf arn)"
    and kept: "(repo_domainName repo, repo_name repo) = k
                 \<longrightarrow> (\<forall>now. \<not> expired now (tagsOf (repo_arn repo)))"
    and before: "k \<notin> set (deletions tr)"
  shows "k \<notin> set (deletions (snd (snd (gc_repo (spy env) repo (w, tr)))))"
proof -
  obtain w1 where t: "listTagsForResource env (repo_arn repo) w = (Inr (tagsOf (repo_arn repo)), w1)"
    using tags [of "repo_arn repo" w] by (cases "listTagsForResource env (repo_arn repo) w") simp
  show ?thesis
  proof (cases "expired (dateNow env w1) (tagsOf (repo_arn repo))")
    case True
    with kept have "(repo_domainName repo, repo_name repo) \<noteq> k" by blast
    with True gc_repo_run [OF t, of tr] before show ?thesis
      by (auto simp: logged_run deletions_append)
  next
    case False
    with gc_repo_run [OF t, of tr] before show ?thesis
      by (simp add: deletions_append)
  qed
qed

lemma gc_page_keeps:
  assumes tags: "\<And>arn w. fst (listTagsForResource env arn w) = Inr (tagsOf arn)"
    and kept: "\<forall>r \<in> set repos. (repo_domainName r, repo_name r) = k
                 \<longrightarrow> (\<forall>now. \<not> expired now (tagsOf (repo_arn r)))"
    and before: "k \<notin> set (deletions tr)"
  shows "k \<notin> set (deletions (snd (snd (gc_page (spy env) repos (w, tr)))))"
  using kept before
proof (induction repos arbitrary: w tr)
  case Nil
  then show ?case by simp
next
  case (Cons repo rest)
  obtain r1 w1 tr1 where one: "gc_repo (spy env) repo (w, tr) = (r1, (w1, tr1))"
    by (metis prod.exhaust)
  from Cons.prems have "(repo_domainName repo, repo_name repo) = k
      \<longrightarrow> (\<forall>now. \<not> expired now (tagsOf (repo_arn repo)))"
    by simp
  from gc_repo_keeps [where env = env and tagsOf = tagsOf, OF tags this Cons.prems(2), of w] one
  have tr1: "k \<notin> set (deletions tr1)" by simp
  show ?case
  proof (cases r1)
    case (Inl e)
    with one tr1 show ?thesis by simp
  next
    case (Inr u)
    from Cons.prems have "\<forall>r \<in> set rest. (repo_domainName r, repo_name r) = k
        \<longrightarrow> (\<forall>now. \<not> expired now (tagsOf (repo_arn r)))"
      by simp
    from Cons.IH [OF this tr1, of w1] Inr one show ?thesis by simp
  qed
qed

lemma gc_pages_keeps:
  assumes pages: "\<And>token w. fst (listRepositories env token w) = Inr (pageOf token)"
    and tags: "\<And>arn w. fst (listTagsForResource env arn w) = Inr (tagsOf arn)"
    and listed: "listing pageOf fuel token = Some repos"
    and kept: "\<forall>r \<in> set repos. (repo_domainName r, repo_name r) = k
                 \<longrightarrow> (\<forall>now. \<not> expired now (tagsOf (repo_arn r)))"
    and before: "k \<notin> set (deletions tr)"
  shows "k \<notin> set (deletions (snd (snd (gc_pages (spy env) budget token (w, tr)))))"
  using listed kept before
proof (induction budget arbitrary: fuel token w tr repos)
  case 0
  then show ?case by simp
next
  case (Suc budget)
  let ?page = "pageOf token"
  let ?here = "case repositories ?page of None \<Rightarrow> [] | Some rs \<Rightarrow> rs"
  let ?l = "attempt env (ListRepositories token) w None"
  from Suc.prems(1) obtain less where fuel: "fuel = Suc less"
    by (cases fuel) simp_all
  obtain w1 where "listRepositories env token w = (Inr ?page, w1)"
    using pages [of token w] by (cases "listRepositories env token w") simp
  then have call: "listRepositories (spy env) token (w, tr) = (Inr ?page, (w1, tr @ [?l]))"
    by (simp add: spy_calls logged_run rejected_def)
  obtain r2 w2 tr2 where page: "gc_page (spy env) ?here (w1, tr @ [?l]) = (r2, (w2, tr2))"
    by (metis prod.exhaust)
  from Suc.prems(1) fuel have part: "set ?here \<subseteq> set repos"
    by (auto simp: Let_def split: if_splits)
  with Suc.prems(2) have "\<forall>r \<in> set ?here. (repo_domainName r, repo_name r) = k
      \<longrightarrow> (\<forall>now. \<not> expired now (tagsOf (repo_arn r)))"
    by blast
  moreover from Suc.prems(3) have "k \<notin> set (deletions (tr @ [?l]))"
    by (simp add: deletions_append)
  ultimately have "k \<notin> set (deletions (snd (snd (gc_page (spy env) ?here (w1, tr @ [?l])))))"
    by (rule gc_page_keeps [where env = env and tagsOf = tagsOf, OF tags])
  with page have tr2: "k \<notin> set (deletions tr2)" by simp
  show ?case
  proof (cases r2)
    case (Inl e)
    with call page tr2 show ?thesis by simp
  next
    case (Inr u)
    show ?thesis
    proof (cases "truthy (nextToken ?page)")
      case False
      with Inr call page tr2 show ?thesis by simp
    next
      case True
      with Suc.prems(1) fuel obtain later
        where later: "listing pageOf less (nextToken ?page) = Some later"
          and all: "repos = ?here @ later"
        by (auto simp: Let_def)
      from Suc.prems(2) all have "\<forall>r \<in> set later. (repo_domainName r, repo_name r) = k
          \<longrightarrow> (\<forall>now. \<not> expired now (tagsOf (repo_arn r)))"
        by simp
      from Suc.IH [OF later this tr2, of w2] True Inr call page show ?thesis by simp
    qed
  qed
qed

lemma gc_keeps:
  assumes pages: "\<And>token w. fst (listRepositories env token w) = Inr (pageOf token)"
    and tags: "\<And>arn w. fst (listTagsForResource env arn w) = Inr (tagsOf arn)"
    and listed: "listing pageOf fuel None = Some repos"
    and kept: "\<forall>r \<in> set repos. (repo_domainName r, repo_name r) = k
                 \<longrightarrow> (\<forall>now. \<not> expired now (tagsOf (repo_arn r)))"
  shows "k \<notin> set (deletions (snd (snd (gc (spy env) budget (w, [])))))"
proof -
  let ?me = "existing ''*dummy*''"
  obtain r1 w1 tr1 where probe: "domainExists (spy env) ?me (w, []) = (r1, (w1, tr1))"
    by (metis prod.exhaust)
  then have tr1: "k \<notin> set (deletions tr1)"
    by (auto simp: domainExists_def spy_calls logged_run split: prod.splits sum.splits if_splits)
  show ?thesis
  proof (cases r1)
    case (Inl e)
    with probe tr1 show ?thesis by (simp add: gc_def)
  next
    case (Inr ex)
    from gc_pages_keeps [where env = env and tagsOf = tagsOf and pageOf = pageOf,
        OF pages tags listed kept tr1, of budget w1]
    have "k \<notin> set (deletions (snd (snd (gc_pages (spy env) budget None (w1, tr1)))))" .
    with Inr probe tr1 show ?thesis by (simp add: gc_def)
  qed
qed

lemmas sweep_run =
  gc_def gc_repo_def collectable_def domainExists_def existing_def domain_def bind_io_def
  truthy_def spy_calls logged_run rejected_def registry_calls number_values
  DEFAULT_DOMAIN_def COLLECT_BY_TAG_def RESOURCE_NOT_FOUND_def numeral_2_eq_2 attempt_def

text \<open>
  Claim C10, as stated, fails. A tag value need not be a numeric string to convert to a
  number: the empty string is no numeric literal, and \<^verbatim>\<open>Number\<close> converts it to 0, as
  it does a string of white space. In \<open>w_blank\<close> the sandbox is tagged \<^verbatim>\<open>collect-by\<close>
  with the empty string, the clock reads 1000, and the sweep deletes the sandbox.
\<close>

theorem sweep_keeps_non_numeric_counterexample:
  "\<not> strNumericLiteral ''''
   \<and> Number '''' = Finite 0
   \<and> \<not> strNumericLiteral ''  ''
   \<and> Number ''  '' = Finite 0
   \<and> gc (spy registry_client) 1 (w_blank, [])
       = (Some (Inr ()), (w_blank\<lparr>reg_repos := []\<rparr>, blank_log))
   \<and> deletions blank_log = [(Some ''test-cdk'', Some ''test-blank'')]"
  by (simp add: sweep_run w_blank_def mk_repo_def blank_log_def done_at_def
      strNumericLiteral_def number_run)

text \<open>
  Claim C10, amended. Let the registry answer the listing with the pages \<open>pageOf\<close> and
  the tag requests with \<open>tagsOf\<close>, and let \<open>repos\<close> be the repositories the pagination
  returns. If, for every one of them that is listed under the domain \<open>d\<close> and the name
  \<open>n\<close>, the value of every \<^verbatim>\<open>collect-by\<close> tag is not a numeric string and not empty
  or white space only, then \<^verbatim>\<open>Number\<close> converts these values to NaN, and the sweep
  calls no deletion for \<open>d\<close> and \<open>n\<close>: whatever the clock reads, whatever the registry
  answers to its other calls, and however far the sweep gets.

  And on the reference registry, when no rejection is injected, the repositories are held
  under distinct names in domains the registry holds, and one page holds them all: a
  repository with such values is still in the registry after the sweep, whatever the
  clock of the registry reads, and no deletion was called for it.
\<close>

theorem sweep_keeps_non_numeric:
  assumes pages: "\<And>token w. fst (listRepositories env token w) = Inr (pageOf token)"
    and tags: "\<And>arn w. fst (listTagsForResource env arn w) = Inr (tagsOf arn)"
    and listed: "listing pageOf fuel None = Some repos"
    and odd: "\<forall>r \<in> set repos. repo_domainName r = d \<and> repo_name r = n
        \<longrightarrow> (\<forall>t \<in> set (case tagsOf (repo_arn r) of None \<Rightarrow> [] | Some ts \<Rightarrow> ts).
               tag_key t = ''collect-by''
               \<longrightarrow> \<not> strNumericLiteral (tag_value t) \<and> trimString (tag_value t) \<noteq> [])"
  shows "(\<forall>r \<in> set repos. repo_domainName r = d \<and> repo_name r = n
        \<longrightarrow> (\<forall>t \<in> set (case tagsOf (repo_arn r) of None \<Rightarrow> [] | Some ts \<Rightarrow> ts).
               tag_key t = ''collect-by'' \<longrightarrow> Number (tag_value t) = NaN))
       \<and> (d, n) \<notin> set (deletions (snd (snd (gc (spy env) budget (w, [])))))
       \<and> (reg_faults s = [] \<and> has_domain s ''test-cdk''
            \<and> distinct (map repo_arn_of (reg_repos s))
            \<and> (\<forall>r \<in> set (reg_repos s). has_domain s (rs_domain r))
            \<and> length (reg_repos s) \<le> reg_page_size s
            \<and> sandbox \<in> set (reg_repos s)
            \<and> (\<forall>t \<in> set (rs_tags sandbox). tag_key t = ''collect-by''
                  \<longrightarrow> \<not> strNumericLiteral (tag_value t) \<and> trimString (tag_value t) \<noteq> [])
          \<longrightarrow> sandbox \<in> set (reg_repos (fst (snd (gc (spy registry_client) (Suc extra) (s, [])))))
            \<and> repo_id sandbox
                \<notin> set (deletions (snd (snd (gc (spy registry_client) (Suc extra) (s, []))))))"
proof (intro conjI impI)
  show nan: "\<forall>r \<in> set repos. repo_domainName r = d \<and> repo_name r = n
        \<longrightarrow> (\<forall>t \<in> set (case tagsOf (repo_arn r) of None \<Rightarrow> [] | Some ts \<Rightarrow> ts).
               tag_key t = ''collect-by'' \<longrightarrow> Number (tag_value t) = NaN)"
    using odd by (simp add: Number_NaN strNumericLiteral_def)
  have "\<forall>r \<in> set repos. (repo_domainName r, repo_name r) = (d, n)
      \<longrightarrow> (\<forall>now. \<not> expired now (tagsOf (repo_arn r)))"
  proof (intro ballI impI allI)
    fix r now
    assume r: "r \<in> set repos" and "(repo_domainName r, repo_name r) = (d, n)"
    with nan have "\<forall>t \<in> set (case tagsOf (repo_arn r) of None \<Rightarrow> [] | Some ts \<Rightarrow> ts).
               tag_key t = ''collect-by'' \<longrightarrow> Number (tag_value t) = NaN"
      by simp
    then show "\<not> expired now (tagsOf (repo_arn r))"
      by (auto simp: expired_def)
  qed
  then show "(d, n) \<notin> set (deletions (snd (snd (gc (spy env) budget (w, [])))))"
    by (rule gc_keeps [where env = env and tagsOf = tagsOf and pageOf = pageOf,
          OF pages tags listed])
next
  assume a: "reg_faults s = [] \<and> has_domain s ''test-cdk''
            \<and> distinct (map repo_arn_of (reg_repos s))
            \<and> (\<forall>r \<in> set (reg_repos s). has_domain s (rs_domain r))
            \<and> length (reg_repos s) \<le> reg_page_size s
            \<and> sandbox \<in> set (reg_repos s)
            \<and> (\<forall>t \<in> set (rs_tags sandbox). tag_key t = ''collect-by''
                  \<longrightarrow> \<not> strNumericLiteral (tag_value t) \<and> trimString (tag_value t) \<noteq> [])"
  then have "\<forall>t \<in> set (rs_tags sandbox). tag_key t = ''collect-by''
      \<longrightarrow> Number (tag_value t) = NaN"
    by (simp add: Number_NaN strNumericLiteral_def)
  then have fresh: "\<not> repo_expired (reg_clock s) sandbox"
    by (auto simp: repo_expired_def)
  from a sweep_single_page [of s extra]
  obtain tr where run: "gc (spy registry_client) (Suc extra) (s, []) =
      (Some (Inr ()),
       (s\<lparr>reg_repos := filter (\<lambda>r. \<not> repo_expired (reg_clock s) r) (reg_repos s)\<rparr>, tr))"
    and del: "deletions tr = map repo_id (filter (repo_expired (reg_clock s)) (reg_repos s))"
    by blast
  from a have inj: "inj_on repo_arn_of (set (reg_repos s))"
    by (simp add: distinct_map)
  have "repo_id sandbox \<notin> repo_id ` set (filter (repo_expired (reg_clock s)) (reg_repos s))"
  proof
    assume "repo_id sandbox \<in> repo_id ` set (filter (repo_expired (reg_clock s)) (reg_repos s))"
    then obtain r where r: "r \<in> set (reg_repos s)" "repo_expired (reg_clock s) r"
      and same: "repo_id r = repo_id sandbox"
      by auto
    from same have "repo_arn_of r = repo_arn_of sandbox"
      by (simp add: repo_id_def repo_arn_of_def)
    with inj r(1) a have "r = sandbox" by (auto dest: inj_onD)
    with r(2) fresh show False by simp
  qed
  with del have gone: "repo_id sandbox \<notin> set (deletions tr)" by simp
  from run a fresh gone
  show "sandbox \<in> set (reg_repos (fst (snd (gc (spy registry_client) (Suc extra) (s, [])))))"
    and "repo_id sandbox
          \<notin> set (deletions (snd (snd (gc (spy registry_client) (Suc extra) (s, [])))))"
    by simp_all
qed

text \<open>
  The amended claim at the snapshot client and at the registry \<open>w_sweep\<close> with pages of
  three, with the clock in the year 2100: the sandbox tagged \<^verbatim>\<open>soon\<close> is not deleted,
  and the other two are.
\<close>

theorem sweep_keeps_non_numeric_witness:
  "\<not> strNumericLiteral ''soon''
   \<and> Number ''soon'' = NaN
   \<and> deletions (snd (snd (gc (spy (snapshot_client 4102444800000)) 2 (0, []))))
       = [(Some ''test-cdk'', Some ''test-old''), (Some ''test-cdk'', Some ''test-older'')]
   \<and> (Some ''test-cdk'', Some ''test-odd'')
       \<notin> set (deletions (snd (snd (gc (spy (snapshot_client 4102444800000)) 2 (0, [])))))
   \<and> mk_repo ''test-odd'' [\<lparr>tag_key = ''collect-by'', tag_value = ''soon''\<rparr>]
       \<in> set (reg_repos (fst (snd (gc (spy registry_client) 1
            (w_sweep\<lparr>reg_page_size := 3, reg_clock := 4102444800000\<rparr>, [])))))"
proof -
  let ?s = "w_sweep\<lparr>reg_page_size := 3, reg_clock := 4102444800000\<rparr>"
  let ?odd = "mk_repo ''test-odd'' [\<lparr>tag_key = ''collect-by'', tag_value = ''soon''\<rparr>]"
  have listed: "listing snapshot_pages 2 None = Some [old_sandbox, odd_sandbox, older_sandbox]"
    by (simp add: numeral_2_eq_2 snapshot_pages_def truthy_def)
  have soon: "\<not> strNumericLiteral ''soon''" "trimString ''soon'' \<noteq> []"
    by (simp_all add: strNumericLiteral_def number_run)
  then have odd: "\<forall>r \<in> set [old_sandbox, odd_sandbox, older_sandbox].
      repo_domainName r = Some ''test-cdk'' \<and> repo_name r = Some ''test-odd''
        \<longrightarrow> (\<forall>t \<in> set (case snapshot_tags (repo_arn r) of None \<Rightarrow> [] | Some ts \<Rightarrow> ts).
               tag_key t = ''collect-by''
               \<longrightarrow> \<not> strNumericLiteral (tag_value t) \<and> trimString (tag_value t) \<noteq> [])"
    by (simp add: snapshot_tags_def old_sandbox_def older_sandbox_def odd_sandbox_def
        summary_of_def mk_repo_def arn_of_def)
  have held: "reg_faults ?s = [] \<and> has_domain ?s ''test-cdk''
            \<and> distinct (map repo_arn_of (reg_repos ?s))
            \<and> (\<forall>r \<in> set (reg_repos ?s). has_domain ?s (rs_domain r))
            \<and> length (reg_repos ?s) \<le> reg_page_size ?s
            \<and> ?odd \<in> set (reg_repos ?s)
            \<and> (\<forall>t \<in> set (rs_tags ?odd). tag_key t = ''collect-by''
                  \<longrightarrow> \<not> strNumericLiteral (tag_value t) \<and> trimString (tag_value t) \<noteq> [])"
    using soon by (simp add: w_sweep_def mk_repo_def has_domain_def repo_arn_of_def arn_of_def)
  note both = sweep_keeps_non_numeric [where env = "snapshot_client 4102444800000"
        and pageOf = snapshot_pages and tagsOf = snapshot_tags and s = ?s and sandbox = ?odd
        and extra = 0 and budget = 2 and w = 0, OF _ _ listed odd]
  have kept: "(Some ''test-cdk'', Some ''test-odd'')
       \<notin> set (deletions (snd (snd (gc (spy (snapshot_client 4102444800000)) 2 (0, [])))))"
    using both by (simp add: snapshot_client_def)
  have stays: "?odd \<in> set (reg_repos (fst (snd (gc (spy registry_client) 1 (?s, [])))))"
    using both held by (simp add: snapshot_client_def)
  have "deletions (snd (snd (gc (spy (snapshot_client 4102444800000)) 2 (0, []))))
       = [(Some ''test-cdk'', Some ''test-old''), (Some ''test-cdk'', Some ''test-older'')]"
    by (simp add: sweep_run snapshot_run)
  with kept stays soon show ?thesis by (simp add: number_values)
qed

subsection \<open>Deletion\<close>

text \<open>
  Claim C5. A rejection of \<^verbatim>\<open>deleteRepository\<close> with the code
  \<^verbatim>\<open>ResourceNotFoundException\<close> is a success of \<open>delete\<close>, and any other rejection is
  raised unchanged. On the reference registry, with no injected rejection, \<open>delete\<close>
  succeeds, a second deletion is answered with not-found, and the second \<open>delete\<close>
  succeeds as well.
\<close>

theorem delete_not_found:
  "(deleteRepository env (Some (domain this)) (Some (repositoryName this)) w = (Inl e, w')
      \<longrightarrow> delete env this w =
            (if code e = ''ResourceNotFoundException'' then (Inr (), w') else (Inl e, w')))
   \<and> (reg_faults s = []
      \<longrightarrow> (\<exists>s1. delete registry_client this s = (Inr (), s1)
              \<and> deleteRepository registry_client (Some (domain this)) (Some (repositoryName this)) s1
                  = (Inl notFound, s1)
              \<and> delete registry_client this s1 = (Inr (), s1)))"
proof (intro conjI impI)
  assume "deleteRepository env (Some (domain this)) (Some (repositoryName this)) w = (Inl e, w')"
  then show "delete env this w =
            (if code e = ''ResourceNotFoundException'' then (Inr (), w') else (Inl e, w'))"
    by (simp add: delete_def RESOURCE_NOT_FOUND_def)
next
  assume calm: "reg_faults s = []"
  let ?d = "domain this" and ?n = "repositoryName this"
  let ?s1 = "snd (delete registry_client this s)"
  have gone: "\<not> has_repo ?s1 ?d ?n \<and> reg_faults ?s1 = []"
    using calm
    by (auto simp: delete_def registry_client_def reg_deleteRepository_def answering_def
        has_repo_def has_domain_def notFound_def)
  have first: "delete registry_client this s = (Inr (), ?s1)"
    using calm
    by (auto simp: delete_def registry_client_def reg_deleteRepository_def answering_def
        notFound_def)
  have probe: "deleteRepository registry_client (Some ?d) (Some ?n) ?s1 = (Inl notFound, ?s1)"
    using gone by (simp add: registry_client_def reg_deleteRepository_def answering_def)
  then have second: "delete registry_client this ?s1 = (Inr (), ?s1)"
    by (simp add: delete_def notFound_def)
  from first probe second show "\<exists>s1. delete registry_client this s = (Inr (), s1)
              \<and> deleteRepository registry_client (Some ?d) (Some ?n) s1 = (Inl notFound, s1)
              \<and> delete registry_client this s1 = (Inr (), s1)"
    by blast
qed

text \<open>
  The theorem at \<open>w_sweep\<close>: an injected throttling rejection is raised, and without it
  two deletions in a row succeed.
\<close>

theorem delete_not_found_witness:
  "delete registry_client \<lparr>repositoryName = ''test-old''\<rparr> (w_sweep\<lparr>reg_faults := [Some boom]\<rparr>)
     = (Inl boom, w_sweep)
   \<and> fst (delete registry_client \<lparr>repositoryName = ''test-old''\<rparr> w_sweep) = Inr ()
   \<and> fst (delete registry_client \<lparr>repositoryName = ''test-old''\<rparr>
        (snd (delete registry_client \<lparr>repositoryName = ''test-old''\<rparr> w_sweep))) = Inr ()"
proof -
  let ?me = "\<lparr>repositoryName = ''test-old''\<rparr>"
  have rej: "deleteRepository registry_client (Some (domain ?me)) (Some (repositoryName ?me))
      (w_sweep\<lparr>reg_faults := [Some boom]\<rparr>) = (Inl boom, w_sweep)"
    by (simp add: registry_calls w_sweep_def)
  have calm: "reg_faults w_sweep = []"
    by (simp add: w_sweep_def)
  from delete_not_found [of registry_client ?me "w_sweep\<lparr>reg_faults := [Some boom]\<rparr>" boom w_sweep w_sweep]
    rej calm show ?thesis
    by (auto simp: boom_def)
qed

subsection \<open>Login information\<close>

text \<open>
  The first call of \<open>loginInformation\<close> is the token request, and it is the same for
  every sandbox: it names the domain and the validity of 12 hours.
\<close>

lemma login_token_request:
  "\<exists>rest. snd (snd (loginInformation (spy env) self (w, tr))) =
     tr @ attempt env (GetAuthorizationToken ''test-cdk'' 43200) w
            (rejected (fst (getAuthorizationToken env ''test-cdk'' 43200 w))) # rest"
  by (cases "fst (getAuthorizationToken env ''test-cdk'' 43200 w)")
     (auto simp: loginInformation_def bind_io_def return_io_def spy_calls logged_run domain_def
       DEFAULT_DOMAIN_def split: prod.splits sum.splits)

text \<open>
  Claim C8, as stated, fails. The token request names the domain only, so the registry
  answers it whether or not the sandbox exists; and the first rejected lookup ends the
  function, so the other three lookups are never made. In \<open>w_sweep\<close> the sandbox
  \<open>ghost\<close> does not exist, the token request succeeds, and the log of
  \<open>loginInformation\<close> holds two calls, of which only the second is rejected.
\<close>

theorem login_token_counterexample:
  "\<not> has_repo w_sweep (domain ghost) (repositoryName ghost)
   \<and> getAuthorizationToken registry_client (domain ghost) (12 * 3600) w_sweep
       = (Inr (Some ''token-for-test-cdk''), w_sweep)
   \<and> map called (snd (snd (loginInformation (spy registry_client) ghost (w_sweep, []))))
       = [GetAuthorizationToken ''test-cdk'' 43200,
          GetRepositoryEndpoint ''test-cdk'' ''test-ghost'' ''npm'']
   \<and> map rejection (snd (snd (loginInformation (spy registry_client) ghost (w_sweep, []))))
       = [None, Some notFound]"
  by (simp add: registry_calls w_sweep_def mk_repo_def ghost_def domain_def DEFAULT_DOMAIN_def
      loginInformation_def bind_io_def spy_calls logged_run RESOURCE_NOT_FOUND_def rejected_def)

text \<open>
  Claim C8, amended. On the reference registry, with no injected rejection,
  \<open>loginInformation\<close> for a sandbox that does not exist is rejected with not-found:
  by the token request when the domain is missing, and otherwise by the npm endpoint
  lookup, after a token request that succeeded. No other call is made.
\<close>

theorem login_fails_without_repository:
  assumes "reg_faults s = []" and "\<not> has_repo s (domain this) (repositoryName this)"
  shows "loginInformation (spy registry_client) this (s, tr) =
     (Inl notFound, (s, tr @
        (if has_domain s (domain this)
         then [attempt registry_client (GetAuthorizationToken (domain this) (12 * 3600)) s None,
               attempt registry_client
                 (GetRepositoryEndpoint (domain this) (repositoryName this) ''npm'') s
                 (Some notFound)]
         else [attempt registry_client (GetAuthorizationToken (domain this) (12 * 3600)) s
                 (Some notFound)])))"
  using assms
  by (simp add: loginInformation_def bind_io_def spy_calls logged_run rejected_def
      registry_client_def reg_getAuthorizationToken_def reg_getRepositoryEndpoint_def
      answering_def)

text \<open>The amended claim at \<open>w_sweep\<close> and \<open>ghost\<close>.\<close>

theorem login_fails_without_repository_witness:
  "fst (loginInformation (spy registry_client) ghost (w_sweep, [])) = Inl notFound
   \<and> map called (snd (snd (loginInformation (spy registry_client) ghost (w_sweep, []))))
       = [GetAuthorizationToken ''test-cdk'' 43200,
          GetRepositoryEndpoint ''test-cdk'' ''test-ghost'' ''npm'']"
proof -
  have calm: "reg_faults w_sweep = []"
    by (simp add: w_sweep_def)
  have absent: "\<not> has_repo w_sweep (domain ghost) (repositoryName ghost)"
    by (simp add: has_repo_def has_domain_def is_repo_def w_sweep_def mk_repo_def ghost_def)
  from login_fails_without_repository [OF calm absent, of "[]"] show ?thesis
    by (simp add: has_domain_def w_sweep_def ghost_def domain_def DEFAULT_DOMAIN_def)
qed

subsection \<open>Logs of runs\<close>

lemma rejected_simps [simp]:
  "rejected (Inl e) = Some e" "rejected (Inr a) = None"
  by (simp_all add: rejected_def)

lemma tracesI:
  assumes "\<And>w tr. \<exists>seg. snd (snd (m (w, tr))) = tr @ seg \<and> P w (rejected (fst (m (w, tr)))) seg"
  shows "traces P m"
  using assms by (simp add: traces_def)

lemma tracesD:
  assumes "traces P m" and "m (w, tr) = (r, (w', tr'))"
  shows "\<exists>seg. tr' = tr @ seg \<and> P w (rejected r) seg"
proof -
  from assms(1)
  have "\<exists>seg. snd (snd (m (w, tr))) = tr @ seg \<and> P w (rejected (fst (m (w, tr)))) seg"
    by (simp add: traces_def)
  with assms(2) show ?thesis by simp
qed

lemma traces_logged:
  assumes "\<And>w r. P w r [attempt env c w r]"
  shows "traces P (logged env c op)"
  using assms by (auto simp: traces_def logged_run)

lemma traces_return:
  assumes "\<And>w. P w None []"
  shows "traces P (return_io a)"
  using assms by (simp add: traces_def return_io_def)

lemma traces_bind:
  assumes m: "traces P m"
    and f: "\<And>a. traces (Q a) (f a)"
    and stop: "\<And>w e s. P w (Some e) s \<Longrightarrow> R w (Some e) s"
    and seq: "\<And>w a s1 w1 r s2. P w None s1 \<Longrightarrow> Q a w1 r s2 \<Longrightarrow> R w r (s1 @ s2)"
  shows "traces R (bind_io m f)"
proof (rule tracesI)
  fix w tr
  obtain r w1 tr1 where run: "m (w, tr) = (r, (w1, tr1))"
    by (metis prod.exhaust)
  from tracesD [OF m run] obtain s1 where s1: "tr1 = tr @ s1" "P w (rejected r) s1" by blast
  show "\<exists>seg. snd (snd (bind_io m f (w, tr))) = tr @ seg
      \<and> R w (rejected (fst (bind_io m f (w, tr)))) seg"
  proof (cases r)
    case (Inl e)
    with run s1 stop show ?thesis by (auto simp: bind_io_def)
  next
    case (Inr a)
    obtain r2 w2 tr2 where run2: "f a (w1, tr1) = (r2, (w2, tr2))"
      by (metis prod.exhaust)
    from tracesD [OF f run2] obtain s2 where s2: "tr2 = tr1 @ s2" "Q a w1 (rejected r2) s2"
      by blast
    from Inr s1 s2 seq have "R w (rejected r2) (s1 @ s2)" by auto
    with Inr run run2 s1 s2 show ?thesis by (auto simp: bind_io_def)
  qed
qed

lemma traces_seq_bind:
  assumes "sequential P" and "traces (\<lambda>w. P) m" and "\<And>a. traces (\<lambda>w. P) (f a)"
  shows "traces (\<lambda>w. P) (bind_io m f)"
  by (rule traces_bind [OF assms(2) assms(3)]) (use assms(1) in \<open>auto simp: sequential_def\<close>)

lemma traces_seq_return:
  assumes "sequential P"
  shows "traces (\<lambda>w. P) (return_io a)"
  by (rule traces_return) (use assms in \<open>simp add: sequential_def\<close>)

lemma traces_seq_if:
  assumes "traces P m" and "traces P m'"
  shows "traces P (if b then m else m')"
  using assms by simp

text \<open>The log of the retry helper.\<close>

lemma retry_loop_shape:
  "\<exists>seg. snd (snd (retry_loop (spy env) (logged env c op) n (w, tr))) = tr @ seg
     \<and> retry_shape c n (rejected (fst (retry_loop (spy env) (logged env c op) n (w, tr)))) seg"
proof (induction n arbitrary: w tr)
  case 0
  show ?case
    by (cases "fst (op w)") (simp_all add: logged_run split: prod.splits sum.splits)
next
  case (Suc n)
  show ?case
  proof (cases "fst (op w)")
    case (Inr a)
    then show ?thesis by (simp add: logged_run)
  next
    case (Inl e)
    let ?w1 = "snd (op w)"
    let ?tr1 = "(tr @ [attempt env c w (Some e)]) @ [attempt env (Sleep 500) ?w1 None]"
    from Suc [of "sleep env 500 ?w1" ?tr1] obtain seg where
      seg: "snd (snd (retry_loop (spy env) (logged env c op) n (sleep env 500 ?w1, ?tr1)))
              = ?tr1 @ seg"
        "retry_shape c n
           (rejected (fst (retry_loop (spy env) (logged env c op) n (sleep env 500 ?w1, ?tr1))))
           seg"
      by blast
    from Inl seg show ?thesis
      by (simp add: logged_run spy_sleep)
  qed
qed

lemma retry_log:
  assumes "retry (spy env) (logged env c op) (w, tr) = (r, (w', tr'))"
  shows "\<exists>seg. tr' = tr @ seg \<and> retry_shape c 3 (rejected r) seg"
  using retry_loop_shape [of env c op 3 w tr] assms by (simp add: retry_def)

lemma traces_retry:
  assumes "\<And>r seg. retry_shape c 3 r seg \<Longrightarrow> P r seg"
  shows "traces (\<lambda>w. P) (retry (spy env) (logged env c op))"
  unfolding retry_def
  by (rule tracesI) (use retry_loop_shape [of env c op 3] assms in blast)

text \<open>
  Provisioning keeps every sequential property that its retries have, and that its other
  calls have one by one: a probe answered with not-found ends without a rejection, and
  every other call ends the way it was answered.
\<close>

lemma traces_probe:
  assumes one: "\<And>c w r. \<forall>ms. c \<noteq> Sleep ms \<Longrightarrow> \<forall>d n x. c \<noteq> AssociateExternalConnection d n x
             \<Longrightarrow> \<not> absorbed_probe (attempt env c w r) \<Longrightarrow> P r [attempt env c w r]"
    and probe: "\<And>x. absorbed_probe x \<Longrightarrow> P None [x]"
  shows "traces (\<lambda>w. P) (domainExists (spy env) self)"
    and "traces (\<lambda>w. P) (repositoryExists (spy env) self name)"
proof -
  show "traces (\<lambda>w. P) (domainExists (spy env) self)"
  proof (rule tracesI)
    fix w tr
    show "\<exists>seg. snd (snd (domainExists (spy env) self (w, tr))) = tr @ seg
        \<and> P (rejected (fst (domainExists (spy env) self (w, tr)))) seg"
    proof (cases "fst (describeDomain env (domain self) w)")
      case (Inr u)
      with one [of "DescribeDomain (domain self)" w None] show ?thesis
        by (simp add: domainExists_def spy_calls logged_run absorbed_probe_def)
    next
      case (Inl e)
      have "absorbed_probe (attempt env (DescribeDomain (domain self)) w (Some e))"
        if "code e = RESOURCE_NOT_FOUND"
        using that by (simp add: absorbed_probe_def)
      moreover have "\<not> absorbed_probe (attempt env (DescribeDomain (domain self)) w (Some e))"
        if "code e \<noteq> RESOURCE_NOT_FOUND"
        using that by (simp add: absorbed_probe_def)
      ultimately show ?thesis
        using Inl probe one [of "DescribeDomain (domain self)" w "Some e"]
        by (auto simp: domainExists_def spy_calls logged_run)
    qed
  qed
  show "traces (\<lambda>w. P) (repositoryExists (spy env) self name)"
  proof (rule tracesI)
    fix w tr
    show "\<exists>seg. snd (snd (repositoryExists (spy env) self name (w, tr))) = tr @ seg
        \<and> P (rejected (fst (repositoryExists (spy env) self name (w, tr)))) seg"
    proof (cases "fst (describeRepository env (domain self) name w)")
      case (Inr u)
      with one [of "DescribeRepository (domain self) name" w None] show ?thesis
        by (simp add: repositoryExists_def spy_calls logged_run absorbed_probe_def)
    next
      case (Inl e)
      have "absorbed_probe (attempt env (DescribeRepository (domain self) name) w (Some e))"
        if "code e = RESOURCE_NOT_FOUND"
        using that by (simp add: absorbed_probe_def)
      moreover have "\<not> absorbed_probe (attempt env (DescribeRepository (domain self) name) w (Some e))"
        if "code e \<noteq> RESOURCE_NOT_FOUND"
        using that by (simp add: absorbed_probe_def)
      ultimately show ?thesis
        using Inl probe one [of "DescribeRepository (domain self) name" w "Some e"]
        by (auto simp: repositoryExists_def spy_calls logged_run)
    qed
  qed
qed

lemma traces_ensureRepository:
  assumes seq: "sequential P"
    and one: "\<And>c w r. \<forall>ms. c \<noteq> Sleep ms \<Longrightarrow> \<forall>d n x. c \<noteq> AssociateExternalConnection d n x
             \<Longrightarrow> \<not> absorbed_probe (attempt env c w r) \<Longrightarrow> P r [attempt env c w r]"
    and probe: "\<And>x. absorbed_probe x \<Longrightarrow> P None [x]"
    and again: "\<And>d n x r seg. retry_shape (AssociateExternalConnection d n x) 3 r seg \<Longrightarrow> P r seg"
  shows "traces (\<lambda>w. P) (ensureRepository (spy env) self name options)"
  unfolding ensureRepository_def
proof (rule traces_seq_bind [OF seq])
  show "traces (\<lambda>w. P) (repositoryExists (spy env) self name)"
  proof (rule traces_probe(2))
    show "P r [attempt env c w r]"
      if "\<forall>ms. c \<noteq> Sleep ms" "\<forall>d n x. c \<noteq> AssociateExternalConnection d n x"
        "\<not> absorbed_probe (attempt env c w r)" for c w r
      using that by (rule one)
    show "P None [x]" if "absorbed_probe x" for x
      using that by (rule probe)
  qed
next
  fix ex
  have create: "traces (\<lambda>w. P) (createRepository (spy env) rq)" for rq
    by (simp add: spy_calls) (rule traces_logged, rule one, simp_all add: absorbed_probe_def split: option.splits)
  have assoc: "traces (\<lambda>w. P)
      (retry (spy env) (associateExternalConnection (spy env) (domain self) name x))" for x
    by (simp add: spy_calls) (rule traces_retry, rule again)
  show "traces (\<lambda>w. P) (if ex then return_io ()
     else bind_io
       (createRepository (spy env)
          \<lparr>cr_domain = domain self, cr_repository = name,
           cr_description = opt_description options, cr_upstreams = opt_upstreams options,
           cr_tags = map_option (map (\<lambda>(k, v). \<lparr>tag_key = k, tag_value = v\<rparr>)) (opt_tags options)\<rparr>)
       (\<lambda>_. case opt_external options of
          None \<Rightarrow> return_io ()
        | Some externalConnection \<Rightarrow>
            if externalConnection = [] then return_io ()
            else retry (spy env)
              (associateExternalConnection (spy env) (domain self) name externalConnection)))"
    by (intro traces_seq_if traces_seq_return [OF seq] traces_seq_bind [OF seq] create)
       (auto split: option.splits intro: traces_seq_return [OF seq] assoc)
qed

lemma traces_prepare:
  assumes seq: "sequential P"
    and one: "\<And>c w r. \<forall>ms. c \<noteq> Sleep ms \<Longrightarrow> \<forall>d n x. c \<noteq> AssociateExternalConnection d n x
             \<Longrightarrow> \<not> absorbed_probe (attempt env c w r) \<Longrightarrow> P r [attempt env c w r]"
    and probe: "\<And>x. absorbed_probe x \<Longrightarrow> P None [x]"
    and again: "\<And>d n x r seg. retry_shape (AssociateExternalConnection d n x) 3 r seg \<Longrightarrow> P r seg"
  shows "traces (\<lambda>w. P) (prepare (spy env) self)"
proof -
  note ensure = traces_ensureRepository [where P = P and env = env, OF seq one probe again]
  have created: "traces (\<lambda>w. P) (createDomain (spy env) d ts)" for d ts
    by (simp add: spy_calls) (rule traces_logged, rule one, simp_all add: absorbed_probe_def split: option.splits)
  have probed: "traces (\<lambda>w. P) (domainExists (spy env) self)"
  proof (rule traces_probe(1))
    show "P r [attempt env c w r]"
      if "\<forall>ms. c \<noteq> Sleep ms" "\<forall>d n x. c \<noteq> AssociateExternalConnection d n x"
        "\<not> absorbed_probe (attempt env c w r)" for c w r
      using that by (rule one)
    show "P None [x]" if "absorbed_probe x" for x
      using that by (rule probe)
  qed
  have dom: "traces (\<lambda>w. P) (ensureDomain (spy env) self)"
    unfolding ensureDomain_def
    by (intro traces_seq_bind [OF seq] probed traces_seq_if traces_seq_return [OF seq] created)
  have ups: "traces (\<lambda>w. P) (ensureUpstreams (spy env) self)"
    unfolding ensureUpstreams_def
    by (intro traces_seq_bind [OF seq] ensure)
  have last: "traces (\<lambda>w. P) (\<lambda>w. ensureRepository (spy env) self (repositoryName self) (opts w) w)"
    for opts
  proof (rule tracesI)
    fix w tr
    from ensure [where self = self and name = "repositoryName self" and options = "opts (w, tr)"]
    show "\<exists>seg. snd (snd (ensureRepository (spy env) self (repositoryName self) (opts (w, tr)) (w, tr)))
          = tr @ seg
        \<and> P (rejected (fst (ensureRepository (spy env) self (repositoryName self) (opts (w, tr)) (w, tr))))
            seg"
      by (simp add: traces_def)
  qed
  show ?thesis
    unfolding prepare_def
    by (intro traces_seq_bind [OF seq] dom ups last)
qed

subsection \<open>Rejections surface at once\<close>

lemma surfaced_append:
  assumes "surfaced A None s1" and "surfaced A r s2"
  shows "surfaced A r (s1 @ s2)"
proof (cases r)
  case None
  with assms show ?thesis by (auto simp: surfaced_def)
next
  case (Some e)
  with assms obtain pre x where "s2 = pre @ [x]" "rejection x = Some e"
    "\<forall>y \<in> set pre. rejection y \<noteq> None \<longrightarrow> A y"
    by (auto simp: surfaced_def)
  with assms(1) have "s1 @ s2 = (s1 @ pre) @ [x] \<and> rejection x = Some e
      \<and> (\<forall>y \<in> set (s1 @ pre). rejection y \<noteq> None \<longrightarrow> A y)"
    by (auto simp: surfaced_def)
  with Some show ?thesis unfolding surfaced_def by (simp only: option.case) blast
qed

lemma sequential_surfaced: "sequential (surfaced A)"
  unfolding sequential_def
proof (intro conjI allI impI)
  show "surfaced A None []" by (simp add: surfaced_def)
next
  fix s1 r s2
  assume "surfaced A None s1 \<and> surfaced A r s2"
  then show "surfaced A r (s1 @ s2)" using surfaced_append by blast
qed

lemma surfaced_one: "surfaced A r [attempt env c w r]"
  by (cases r) (auto simp: surfaced_def)

lemma surfaced_last:
  assumes "surfaced A r (pre @ x # post)" and "rejection x = Some e" and "\<not> A x"
  shows "post = [] \<and> r = Some e"
proof (cases r)
  case None
  with assms show ?thesis by (auto simp: surfaced_def)
next
  case (Some e')
  with assms(1) obtain pre' x' where split: "pre @ x # post = pre' @ [x']"
    and x': "rejection x' = Some e'" and quiet: "\<forall>y \<in> set pre'. rejection y \<noteq> None \<longrightarrow> A y"
    by (auto simp: surfaced_def)
  show ?thesis
  proof (cases post rule: rev_cases)
    case Nil
    with split have "x = x'" by simp
    with Nil x' assms(2) Some show ?thesis by simp
  next
    case (snoc ys y)
    with split have "pre' = pre @ x # ys" by simp
    with quiet assms(2,3) show ?thesis by auto
  qed
qed

lemma retry_shape_surfaced:
  assumes "retry_shape (AssociateExternalConnection d n x) k r seg"
  shows "surfaced unretried r seg"
  using assms
proof (induction "AssociateExternalConnection d n x" k r seg rule: retry_shape.induct)
  case (1 k r a)
  then show ?case by (cases r) (auto simp: surfaced_def)
next
  case (2 k r a b rest)
  then have rest: "surfaced unretried r rest" by simp
  from 2 have "surfaced unretried None [a, b]"
    by (auto simp: surfaced_def unretried_def rejected_association_def)
  from surfaced_append [OF this rest] show ?case by simp
qed simp_all

subsection \<open>The sweep stops at a rejected call\<close>

lemma traces_surfaced_logged: "traces (\<lambda>w. surfaced A) (logged env c op)"
  by (rule traces_logged) (rule surfaced_one)

lemma traces_gc_repo: "traces (\<lambda>w. surfaced A) (gc_repo (spy env) repo)"
  unfolding gc_repo_def
proof (rule traces_seq_bind [OF sequential_surfaced])
  show "traces (\<lambda>w. surfaced A) (listTagsForResource (spy env) (repo_arn repo))"
    by (simp add: spy_calls traces_surfaced_logged)
next
  fix tags
  show "traces (\<lambda>w. surfaced A) (\<lambda>w. case collectable (spy env) w tags of
      None \<Rightarrow> (Inr (), w)
    | Some _ \<Rightarrow> deleteRepository (spy env) (repo_domainName repo) (repo_name repo) w)"
  proof (rule tracesI)
    fix w tr
    have del: "\<exists>seg. snd (snd (logged env c op (w, tr))) = tr @ seg
        \<and> surfaced A (rejected (fst (logged env c op (w, tr)))) seg" for c and op :: "('a, unit) io"
      using traces_surfaced_logged [of A env c op] by (simp add: traces_def)
    show "\<exists>seg. snd (snd (case collectable (spy env) (w, tr) tags of
          None \<Rightarrow> (Inr (), (w, tr))
        | Some _ \<Rightarrow> deleteRepository (spy env) (repo_domainName repo) (repo_name repo) (w, tr)))
          = tr @ seg
      \<and> surfaced A (rejected (fst (case collectable (spy env) (w, tr) tags of
          None \<Rightarrow> (Inr (), (w, tr))
        | Some _ \<Rightarrow> deleteRepository (spy env) (repo_domainName repo) (repo_name repo) (w, tr)))) seg"
    proof (cases "collectable (spy env) (w, tr) tags")
      case None
      then show ?thesis by (simp add: surfaced_def)
    next
      case (Some t)
      with del show ?thesis by (simp add: spy_calls)
    qed
  qed
qed

lemma traces_gc_page: "traces (\<lambda>w. surfaced A) (gc_page (spy env) repos)"
proof (induction repos)
  case Nil
  show ?case by (rule tracesI) (simp add: surfaced_def)
next
  case (Cons repo rest)
  show ?case
    unfolding gc_page_bind
    by (rule traces_seq_bind [OF sequential_surfaced traces_gc_repo Cons])
qed

text \<open>
  The log of a sweep, returned or not: a rejected call that the sweep does not absorb is
  the last call, and the sweep has returned its rejection.
\<close>

lemma gc_pages_surfaced:
  assumes "gc_pages (spy env) fuel token (w, tr) = (res, (w', tr'))"
  shows "\<exists>seg. tr' = tr @ seg \<and> surfaced A (Option.bind res rejected) seg"
  using assms
proof (induction fuel arbitrary: token w tr)
  case 0
  then show ?case by (simp add: surfaced_def)
next
  case (Suc fuel)
  let ?x = "attempt env (ListRepositories token) w (rejected (fst (listRepositories env token w)))"
  show ?case
  proof (cases "fst (listRepositories env token w)")
    case (Inl e)
    with Suc.prems have "res = Some (Inl e)" "tr' = tr @ [?x]"
      by (auto simp: spy_calls logged_run)
    moreover from Inl have "surfaced A (Some e) [?x]"
      by (simp add: surfaced_def)
    ultimately show ?thesis by auto
  next
    case (Inr page)
    let ?rs = "case repositories page of None \<Rightarrow> [] | Some rs \<Rightarrow> rs"
    let ?w1 = "snd (listRepositories env token w)"
    from Inr have x: "surfaced A None [?x]"
      by (simp add: surfaced_def)
    obtain r2 w2 tr2 where page: "gc_page (spy env) ?rs (?w1, tr @ [?x]) = (r2, (w2, tr2))"
      by (metis prod.exhaust)
    from tracesD [OF traces_gc_page page] obtain s2
      where s2: "tr2 = (tr @ [?x]) @ s2" "surfaced A (rejected r2) s2" by blast
    from surfaced_append [OF x s2(2)] have both: "surfaced A (rejected r2) ([?x] @ s2)" .
    show ?thesis
    proof (cases r2)
      case (Inl e)
      with Suc.prems Inr page have "res = Some (Inl e)" "tr' = tr2"
        by (auto simp: spy_calls logged_run)
      with Inl s2 both show ?thesis by auto
    next
      case r2: (Inr u)
      show ?thesis
      proof (cases "truthy (nextToken page)")
        case False
        with Suc.prems Inr page r2 have "res = Some (Inr ())" "tr' = tr2"
          by (auto simp: spy_calls logged_run)
        with r2 s2 both show ?thesis by auto
      next
        case True
        with Suc.prems Inr page r2
        have "gc_pages (spy env) fuel (nextToken page) (w2, tr2) = (res, (w', tr'))"
          by (auto simp: spy_calls logged_run)
        from Suc.IH [OF this] obtain s3
          where s3: "tr' = tr2 @ s3" "surfaced A (Option.bind res rejected) s3"
          by blast
        from r2 both have "surfaced A None ([?x] @ s2)" by simp
        from surfaced_append [OF this s3(2)] s3(1) s2(1) show ?thesis by auto
      qed
    qed
  qed
qed

lemma gc_surfaced:
  assumes "gc (spy env) fuel (w, tr) = (res, (w', tr'))"
  shows "\<exists>seg. tr' = tr @ seg \<and> surfaced absorbed_probe (Option.bind res rejected) seg"
proof -
  let ?me = "existing ''*dummy*''"
  obtain r1 w1 tr1 where probe: "domainExists (spy env) ?me (w, tr) = (r1, (w1, tr1))"
    by (metis prod.exhaust)
  have "traces (\<lambda>w. surfaced absorbed_probe) (domainExists (spy env) ?me)"
  proof (rule traces_probe(1))
    show "surfaced absorbed_probe r [attempt env c w r]" for c w r
      by (rule surfaced_one)
    show "surfaced absorbed_probe None [x]" if "absorbed_probe x" for x
      using that by (simp add: surfaced_def)
  qed
  from tracesD [OF this probe]
  obtain s1 where s1: "tr1 = tr @ s1" "surfaced absorbed_probe (rejected r1) s1" by blast
  show ?thesis
  proof (cases r1)
    case (Inl e)
    with assms probe have "res = Some (Inl e)" "tr' = tr1" by (auto simp: gc_def)
    with Inl s1 show ?thesis by auto
  next
    case (Inr ex)
    show ?thesis
    proof (cases ex)
      case False
      with assms probe Inr have "res = Some (Inr ())" "tr' = tr1" by (auto simp: gc_def)
      with Inr s1 show ?thesis by auto
    next
      case True
      with assms probe Inr have "gc_pages (spy env) fuel None (w1, tr1) = (res, (w', tr'))"
        by (auto simp: gc_def)
      from gc_pages_surfaced [OF this, of absorbed_probe]
      obtain s2 where s2: "tr' = tr1 @ s2" "surfaced absorbed_probe (Option.bind res rejected) s2"
        by blast
      from Inr s1 have "surfaced absorbed_probe None s1" by simp
      from surfaced_append [OF this s2(2)] s1(1) s2(1) show ?thesis by auto
    qed
  qed
qed

text \<open>The run of the sweep in \<open>w_abort\<close>.\<close>

lemma sweep_abort_run:
  "gc (spy registry_client) 2 (w_abort, []) = (Some (Inl boom), (w_sweep, abort_log @ [abort_call]))"
  by (simp add: sweep_run w_abort_def w_sweep_def mk_repo_def abort_log_def abort_call_def
      done_at_def)

text \<open>
  Claim C7, as stated, fails: the loop has no handler, so a rejected deletion leaves the
  sweep. In \<open>w_abort\<close> the deletion of the first sandbox is rejected; the sweep returns
  that rejection after four calls, and the second sandbox, which is expired as well, is
  still in the registry: its tags were never read.
\<close>

theorem sweep_abort_counterexample:
  "gc (spy registry_client) 2 (w_abort, []) = (Some (Inl boom), (w_sweep, abort_log @ [abort_call]))
   \<and> rejection abort_call = Some boom
   \<and> has_repo w_sweep ''test-cdk'' ''test-older''
   \<and> listTagsForResource registry_client
        (Some ''arn:aws:codeartifact:repository/test-cdk/test-older'') w_sweep
       = (Inr (Some [\<lparr>tag_key = ''collect-by'', tag_value = ''400''\<rparr>]), w_sweep)
   \<and> js_less (Number ''400'') (dateNow registry_client w_sweep)
   \<and> ListTagsForResource (Some ''arn:aws:codeartifact:repository/test-cdk/test-older'')
        \<notin> called ` set (abort_log @ [abort_call])"
  using sweep_abort_run
  by (simp add: registry_calls number_values w_sweep_def mk_repo_def abort_log_def abort_call_def
      done_at_def)

text \<open>
  Claim C7, amended. Take the log of the sweep after any number of pages, whether the
  sweep has returned by then or not. If the log holds a rejected \<^verbatim>\<open>deleteRepository\<close>
  call, that call is the last one in it, the sweep has returned, with that rejection, and
  more fuel changes neither the result nor the log: no repository after it, on this page
  or a later one, is examined.
\<close>

theorem sweep_stops_at_failed_deletion:
  assumes "snd (snd (gc (spy env) fuel (w, []))) = pre @ x # post"
    and "called x = DeleteRepository d n"
    and "rejection x = Some e"
  shows "post = []
       \<and> fst (gc (spy env) fuel (w, [])) = Some (Inl e)
       \<and> (\<forall>more. gc (spy env) (fuel + more) (w, []) = gc (spy env) fuel (w, []))"
proof -
  obtain res w' tr where run: "gc (spy env) fuel (w, []) = (res, (w', tr))"
    by (metis prod.exhaust)
  from gc_surfaced [OF run] have "surfaced absorbed_probe (Option.bind res rejected) tr" by simp
  moreover from assms(2,3) have "\<not> absorbed_probe x" by (simp add: absorbed_probe_def)
  moreover from run assms(1) have "tr = pre @ x # post" by simp
  ultimately have last: "post = [] \<and> Option.bind res rejected = Some e"
    using assms(3) surfaced_last by blast
  then have "res = Some (Inl e)"
    by (cases res) (auto simp: rejected_def split: sum.splits)
  with run have res: "fst (gc (spy env) fuel (w, [])) = Some (Inl e)" by simp
  from gc_more_fuel [OF res]
  have "\<forall>more. gc (spy env) (fuel + more) (w, []) = gc (spy env) fuel (w, [])" by blast
  with last res show ?thesis by blast
qed

text \<open>The amended claim at the run in \<open>w_abort\<close>, after two pages and after seven.\<close>

theorem sweep_stops_at_failed_deletion_witness:
  "snd (snd (gc (spy registry_client) 2 (w_abort, []))) = abort_log @ [abort_call]
   \<and> called abort_call = DeleteRepository (Some ''test-cdk'') (Some ''test-old'')
   \<and> rejection abort_call = Some boom
   \<and> fst (gc (spy registry_client) 2 (w_abort, [])) = Some (Inl boom)
   \<and> gc (spy registry_client) 7 (w_abort, []) = gc (spy registry_client) 2 (w_abort, [])"
proof -
  have c: "called abort_call = DeleteRepository (Some ''test-cdk'') (Some ''test-old'')"
    and r: "rejection abort_call = Some boom"
    by (simp_all add: abort_call_def)
  from sweep_abort_run
  have log: "snd (snd (gc (spy registry_client) 2 (w_abort, []))) = abort_log @ abort_call # []"
    by simp
  from sweep_stops_at_failed_deletion [OF log c r]
  have "fst (gc (spy registry_client) 2 (w_abort, [])) = Some (Inl boom)"
    and "gc (spy registry_client) (2 + 5) (w_abort, []) = gc (spy registry_client) 2 (w_abort, [])"
    by blast+
  with log c r show ?thesis by simp
qed

subsection \<open>Provisioning retries the association only\<close>

lemma paced_weaken: "paced False xs \<Longrightarrow> paced b xs"
  by (cases xs) auto

lemma paced_append: "paced b s1 \<Longrightarrow> paced False s2 \<Longrightarrow> paced b (s1 @ s2)"
proof (induction s1 arbitrary: b)
  case Nil
  then show ?case by (simp add: paced_weaken)
next
  case (Cons a s1)
  then show ?case by simp
qed

lemma paced_split:
  assumes "paced b (pre @ x # post)" and "called x = Sleep ms"
  shows "ms = 500 \<and> (if pre = [] then b else rejected_association (last pre))"
  using assms
proof (induction pre arbitrary: b)
  case Nil
  then have "\<forall>k. called x = Sleep k \<longrightarrow> b \<and> k = 500" by simp
  with Nil(2) show ?case by simp
next
  case (Cons a pre)
  from Cons.prems(1) have "paced (rejected_association a) (pre @ x # post)" by simp
  from Cons.IH [OF this Cons.prems(2)] show ?case by (cases "pre = []") simp_all
qed

lemma retry_shape_paced:
  assumes "retry_shape (AssociateExternalConnection d n x) k r seg"
  shows "paced False seg"
  using assms
proof (induction "AssociateExternalConnection d n x" k r seg rule: retry_shape.induct)
  case (2 k r a b rest)
  then have "paced False rest" by simp
  then have "paced (rejected_association b) rest" by (rule paced_weaken)
  with 2 show ?case by (simp add: rejected_association_def)
qed simp_all

lemma retrying_cons: "\<not> rejected_association a \<Longrightarrow> retrying s2 \<Longrightarrow> retrying (a # s2)"
  by (cases s2) simp_all

lemma retrying_append:
  assumes "retrying s1" and "retrying s2" and "s1 = [] \<or> \<not> rejected_association (last s1)"
  shows "retrying (s1 @ s2)"
  using assms
proof (induction s1 rule: retrying.induct)
  case (1 a b rest)
  from 1(2) have head: "rejected_association a \<longrightarrow>
      called b = Sleep 500 \<and> (\<exists>z more. rest = z # more \<and> called z = called a)"
    and tail: "retrying (b # rest)" by simp_all
  from 1(4) have "\<not> rejected_association (last (b # rest))" by simp
  with 1(1) [OF tail 1(3)] have "retrying ((b # rest) @ s2)" by simp
  moreover from head have "rejected_association a \<longrightarrow>
      called b = Sleep 500 \<and> (\<exists>z more. rest @ s2 = z # more \<and> called z = called a)"
    by auto
  ultimately show ?case by simp
qed (simp_all add: retrying_cons)

lemma retrying_split:
  assumes "retrying (pre @ x # y # post)" and "rejected_association x"
  shows "called y = Sleep 500 \<and> (\<exists>z more. post = z # more \<and> called z = called x)"
  using assms
proof (induction pre)
  case Nil
  then show ?case by simp
next
  case (Cons a pre)
  then show ?case by (cases pre) auto
qed

lemma settled_append:
  assumes "settled None s1" and "settled r s2"
  shows "settled r (s1 @ s2)"
proof (cases "s2 = []")
  case True
  with assms show ?thesis by (cases r) (auto simp: settled_def)
next
  case False
  then have "last (s1 @ s2) = last s2" by simp
  with assms False show ?thesis
    by (simp add: settled_def retrying_append)
qed

lemma sequential_settled: "sequential settled"
  unfolding sequential_def
proof (intro conjI allI impI)
  show "settled None []" by (simp add: settled_def)
next
  fix s1 r s2
  assume "settled None s1 \<and> settled r s2"
  then show "settled r (s1 @ s2)" using settled_append by blast
qed

lemma retry_shape_head:
  "retry_shape c k r seg \<Longrightarrow> \<exists>z more. seg = z # more \<and> called z = c"
  by (induction c k r seg rule: retry_shape.induct) simp_all

lemma retry_shape_settled:
  assumes "retry_shape (AssociateExternalConnection d n x) k r seg"
  shows "settled r seg"
  using assms
proof (induction "AssociateExternalConnection d n x" k r seg rule: retry_shape.induct)
  case (1 k r a)
  then show ?case by (auto simp: settled_def rejected_association_def)
next
  case (2 k r a b rest)
  from 2 have rest: "retry_shape (AssociateExternalConnection d n x) k r rest" by simp
  from retry_shape_head [OF rest] obtain z more
    where z: "rest = z # more" "called z = AssociateExternalConnection d n x" by blast
  from 2 rest have "settled r rest" by simp
  with 2 z show ?case
    by (auto simp: settled_def rejected_association_def)
qed simp_all

text \<open>The retry helper keeps to the policy, and its fourth rejection is the last.\<close>

lemma policy_append:
  "policy st s1 = Some None \<Longrightarrow> policy st (s1 @ s2) = policy None s2"
  by (induction st s1 rule: policy.induct)
     (auto split: call.splits option.splits if_splits)

lemma sequential_policy: "sequential (\<lambda>r seg. policy None seg = Some r)"
  by (simp add: sequential_def policy_append)

lemma retry_shape_single:
  "retry_shape c k r (x # rest) \<Longrightarrow> rejection x = None \<Longrightarrow> rest = [] \<and> r = None"
  by (cases k; cases rest; cases "tl rest") auto

lemma retry_shape_last:
  "retry_shape c k r seg \<Longrightarrow> seg \<noteq> [] \<and> called (last seg) = c \<and> rejection (last seg) = r"
  by (induction c k r seg rule: retry_shape.induct) auto

lemma retry_shape_step:
  assumes "retry_shape c (Suc k) r (x # rest)" and "rejection x \<noteq> None"
  shows "\<exists>y z more. rest = y # z # more \<and> called x = c \<and> called y = Sleep 500
      \<and> called z = c \<and> retry_shape c k r (z # more)"
proof (cases rest)
  case Nil
  with assms show ?thesis by auto
next
  case (Cons y tail)
  with assms have "retry_shape c k r tail" by simp
  from retry_shape_head [OF this] assms Cons show ?thesis by auto
qed

lemma retry_shape_pending:
  "retry_shape c k r (x # rest) \<Longrightarrow> rejection x = Some e \<Longrightarrow>
   policy (Some (c, k, e)) rest = Some r"
proof (induction k arbitrary: x rest e)
  case 0
  then show ?case by (cases rest) auto
next
  case (Suc k)
  from retry_shape_step [OF Suc.prems(1)] Suc.prems(2) obtain y z more
    where rest: "rest = y # z # more" and y: "called y = Sleep 500" and z: "called z = c"
      and more: "retry_shape c k r (z # more)"
    by auto
  from Suc.prems(1) rest have quiet: "rejection y = None" by simp
  show ?case
  proof (cases "rejection z")
    case None
    from retry_shape_single [OF more None] None rest y z quiet show ?thesis by simp
  next
    case (Some e')
    from Suc.IH [OF more Some] Some rest y z quiet show ?thesis by simp
  qed
qed

lemma retry_shape_policy:
  assumes "retry_shape (AssociateExternalConnection d n x) 3 r seg"
  shows "policy None seg = Some r"
proof -
  from retry_shape_head [OF assms] obtain z rest where seg: "seg = z # rest"
    and z: "called z = AssociateExternalConnection d n x" by blast
  show ?thesis
  proof (cases "rejection z")
    case None
    from retry_shape_single [OF assms [unfolded seg] None] None seg z show ?thesis by simp
  next
    case (Some e)
    from retry_shape_pending [OF assms [unfolded seg] Some] Some seg z show ?thesis by simp
  qed
qed

lemma retry_shape_fourth:
  assumes "retry_shape c 3 r (x1 # rest1)" and "r \<noteq> None"
  shows "\<exists>y1 x2 y2 x3 y3 x. rest1 = [y1, x2, y2, x3, y3, x] \<and> rejection x = r
            \<and> called x = c
            \<and> called x1 = c \<and> rejection x1 \<noteq> None \<and> called y1 = Sleep 500
            \<and> called x2 = c \<and> rejection x2 \<noteq> None \<and> called y2 = Sleep 500
            \<and> called x3 = c \<and> rejection x3 \<noteq> None \<and> called y3 = Sleep 500"
proof -
  have again: "rejection z \<noteq> None" if "retry_shape c k r (z # more)" for z k more
    using that assms(2) retry_shape_single [of c k r z more] by (cases "rejection z") auto
  from assms(1) have s3: "retry_shape c (Suc (Suc (Suc 0))) r (x1 # rest1)"
    by (simp add: numeral_3_eq_3)
  from retry_shape_step [OF s3 again [OF s3]] obtain y1 x2 rest2
    where r1: "rest1 = y1 # x2 # rest2" "called x1 = c" "called y1 = Sleep 500"
      and s2: "retry_shape c (Suc (Suc 0)) r (x2 # rest2)" by blast
  from retry_shape_step [OF s2 again [OF s2]] obtain y2 x3 rest3
    where r2: "rest2 = y2 # x3 # rest3" "called x2 = c" "called y2 = Sleep 500"
      and s1: "retry_shape c (Suc 0) r (x3 # rest3)" by blast
  from retry_shape_step [OF s1 again [OF s1]] obtain y3 x rest4
    where r3: "rest3 = y3 # x # rest4" "called x3 = c" "called y3 = Sleep 500"
      and s0: "retry_shape c 0 r (x # rest4)" by blast
  from s0 have r4: "rest4 = []" "called x = c" "rejection x = r"
    by (cases rest4; simp)+
  from r1 r2 r3 r4 again [OF s3] again [OF s2] again [OF s1] show ?thesis by simp
qed

lemma exhausted_append:
  assumes "exhausted None s1" and "exhausted r s2"
  shows "exhausted r (s1 @ s2)"
  unfolding exhausted_def
proof (intro allI impI)
  fix pre x
  assume a: "s1 @ s2 = pre @ [x] \<and> rejected_association x"
  show "r = rejection x
       \<and> (\<exists>first x1 y1 x2 y2 x3 y3. pre = first @ [x1, y1, x2, y2, x3, y3]
            \<and> called x1 = called x \<and> rejection x1 \<noteq> None \<and> called y1 = Sleep 500
            \<and> called x2 = called x \<and> rejection x2 \<noteq> None \<and> called y2 = Sleep 500
            \<and> called x3 = called x \<and> rejection x3 \<noteq> None \<and> called y3 = Sleep 500)"
  proof (cases s2 rule: rev_cases)
    case Nil
    with a assms(1) have "None = rejection x" by (simp add: exhausted_def)
    with a show ?thesis by (simp add: rejected_association_def)
  next
    case (snoc pre2 x')
    with a have x': "x' = x" and pre: "pre = s1 @ pre2" by simp_all
    from assms(2) snoc x' a obtain first x1 y1 x2 y2 x3 y3
      where r: "r = rejection x" and pre2: "pre2 = first @ [x1, y1, x2, y2, x3, y3]"
        and rest: "called x1 = called x \<and> rejection x1 \<noteq> None \<and> called y1 = Sleep 500
            \<and> called x2 = called x \<and> rejection x2 \<noteq> None \<and> called y2 = Sleep 500
            \<and> called x3 = called x \<and> rejection x3 \<noteq> None \<and> called y3 = Sleep 500"
      unfolding exhausted_def by blast
    from pre pre2 have "pre = (s1 @ first) @ [x1, y1, x2, y2, x3, y3]" by simp
    with r rest show ?thesis by blast
  qed
qed

lemma sequential_exhausted: "sequential exhausted"
  unfolding sequential_def
proof (intro conjI allI impI)
  show "exhausted None []" by (simp add: exhausted_def)
next
  fix s1 r s2
  assume "exhausted None s1 \<and> exhausted r s2"
  then show "exhausted r (s1 @ s2)" using exhausted_append by blast
qed

lemma retry_shape_exhausted:
  assumes "retry_shape c 3 r seg"
  shows "exhausted r seg"
  unfolding exhausted_def
proof (intro allI impI)
  fix pre z
  assume a: "seg = pre @ [z] \<and> rejected_association z"
  from retry_shape_last [OF assms] a have r: "r = rejection z" and c: "called z = c" by simp_all
  with a have live: "r \<noteq> None" by (simp add: rejected_association_def)
  from retry_shape_head [OF assms] obtain x1 rest1 where seg: "seg = x1 # rest1" by blast
  from retry_shape_fourth [OF assms [unfolded seg] live] obtain y1 x2 y2 x3 y3 x
    where rest1: "rest1 = [y1, x2, y2, x3, y3, x]"
      and shape: "called x1 = c \<and> rejection x1 \<noteq> None \<and> called y1 = Sleep 500
            \<and> called x2 = c \<and> rejection x2 \<noteq> None \<and> called y2 = Sleep 500
            \<and> called x3 = c \<and> rejection x3 \<noteq> None \<and> called y3 = Sleep 500"
    by blast
  from a seg rest1 have "pre @ [z] = [x1, y1, x2, y2, x3, y3] @ [x]" by simp
  then have "pre = [] @ [x1, y1, x2, y2, x3, y3]" by simp
  with r c shape
  show "r = rejection z
       \<and> (\<exists>first x1 y1 x2 y2 x3 y3. pre = first @ [x1, y1, x2, y2, x3, y3]
            \<and> called x1 = called z \<and> rejection x1 \<noteq> None \<and> called y1 = Sleep 500
            \<and> called x2 = called z \<and> rejection x2 \<noteq> None \<and> called y2 = Sleep 500
            \<and> called x3 = called z \<and> rejection x3 \<noteq> None \<and> called y3 = Sleep 500)"
    by blast
qed

text \<open>
  Claim C6. In the log of a provisioning run, whatever the registry answers:
  a rejection of any call other than the association, unless it is a not-found answer to
  a probe, is the last call of the run and is what the run raises;
  every sleep lasts 500 ms and comes directly after a rejected association;
  a rejected association that is not the last call is followed by such a sleep and by the
  same call again;
  a rejected association that is the last call is what the run raises, and it is the
  fourth attempt in a row: three rejected attempts of the same call, each followed by a
  sleep of 500 ms, come directly before it;
  and the log as a whole keeps to the retry policy as \<open>policy\<close> reads it, with three
  retries and no more for an association and none for any other call, and ends the way
  the run ends.
\<close>

theorem provisioning_retries_association_only:
  assumes "prepare (spy env) self (w, []) = (res, (w', tr))"
  shows "(\<forall>pre x post e. tr = pre @ x # post \<and> rejection x = Some e
            \<and> \<not> rejected_association x \<and> \<not> absorbed_probe x
          \<longrightarrow> post = [] \<and> res = Inl e)
       \<and> (\<forall>pre x post ms. tr = pre @ x # post \<and> called x = Sleep ms
          \<longrightarrow> ms = 500 \<and> pre \<noteq> [] \<and> rejected_association (last pre))
       \<and> (\<forall>pre x y post. tr = pre @ x # y # post \<and> rejected_association x
          \<longrightarrow> called y = Sleep 500 \<and> (\<exists>z more. post = z # more \<and> called z = called x))
       \<and> (\<forall>pre x e. tr = pre @ [x] \<and> rejected_association x \<and> rejection x = Some e
          \<longrightarrow> res = Inl e
            \<and> (\<exists>first x1 y1 x2 y2 x3 y3. pre = first @ [x1, y1, x2, y2, x3, y3]
                 \<and> called x1 = called x \<and> rejection x1 \<noteq> None \<and> called y1 = Sleep 500
                 \<and> called x2 = called x \<and> rejection x2 \<noteq> None \<and> called y2 = Sleep 500
                 \<and> called x3 = called x \<and> rejection x3 \<noteq> None \<and> called y3 = Sleep 500))
       \<and> policy None tr = Some (rejected res)"
proof (intro conjI allI impI)
  have "traces (\<lambda>w. surfaced unretried) (prepare (spy env) self)"
  proof (rule traces_prepare [OF sequential_surfaced])
    show "surfaced unretried r [attempt env c w r]" for c w r
      by (rule surfaced_one)
    show "surfaced unretried None [x]" if "absorbed_probe x" for x
      using that by (simp add: surfaced_def unretried_def)
    show "surfaced unretried r seg"
      if "retry_shape (AssociateExternalConnection d n x) 3 r seg" for d n x r seg
      using that by (rule retry_shape_surfaced)
  qed
  from tracesD [OF this assms] have surf: "surfaced unretried (rejected res) tr" by simp
  fix pre x post e
  assume "tr = pre @ x # post \<and> rejection x = Some e
            \<and> \<not> rejected_association x \<and> \<not> absorbed_probe x"
  with surf surfaced_last [of unretried "rejected res" pre x post e]
  have "post = [] \<and> rejected res = Some e" by (simp add: unretried_def)
  then show "post = []" and "res = Inl e" by (cases res; simp)+
next
  have "traces (\<lambda>w r. paced False) (prepare (spy env) self)"
  proof (rule traces_prepare)
    show "sequential (\<lambda>r. paced False)"
      by (simp add: sequential_def paced_append)
    show "paced False [attempt env c w r]" if "\<forall>ms. c \<noteq> Sleep ms" for c w r
      using that by simp
    show "paced False [x]" if "absorbed_probe x" for x
      using that by (auto simp: absorbed_probe_def split: option.splits call.splits)
    show "paced False seg"
      if "retry_shape (AssociateExternalConnection d n x) 3 r seg" for d n x r seg
      using that by (rule retry_shape_paced)
  qed
  from tracesD [OF this assms] have pace: "paced False tr" by simp
  fix pre x post ms
  assume "tr = pre @ x # post \<and> called x = Sleep ms"
  with pace paced_split [of False pre x post ms]
  have both: "ms = 500 \<and> (if pre = [] then False else rejected_association (last pre))"
    by blast
  from both show "ms = 500" by simp
  from both show "pre \<noteq> []" by (cases "pre = []") simp_all
  from both show "rejected_association (last pre)" by (cases "pre = []") simp_all
next
  have "traces (\<lambda>w. settled) (prepare (spy env) self)"
  proof (rule traces_prepare [OF sequential_settled])
    show "settled r [attempt env c w r]"
      if "\<forall>d n x. c \<noteq> AssociateExternalConnection d n x" for c w r
      using that by (auto simp: settled_def rejected_association_def split: call.splits)
    show "settled None [x]" if "absorbed_probe x" for x
      using that
      by (auto simp: settled_def absorbed_probe_def rejected_association_def
          split: option.splits call.splits)
    show "settled r seg"
      if "retry_shape (AssociateExternalConnection d n x) 3 r seg" for d n x r seg
      using that by (rule retry_shape_settled)
  qed
  from tracesD [OF this assms] have "retrying tr" by (simp add: settled_def)
  fix pre x y post
  assume "tr = pre @ x # y # post \<and> rejected_association x"
  with \<open>retrying tr\<close> retrying_split [of pre x y post]
  show "called y = Sleep 500" and "\<exists>z more. post = z # more \<and> called z = called x"
    by simp_all
next
  have "traces (\<lambda>w. exhausted) (prepare (spy env) self)"
  proof (rule traces_prepare [OF sequential_exhausted])
    show "exhausted r [attempt env c w r]"
      if "\<forall>d n x. c \<noteq> AssociateExternalConnection d n x" for c w r
      using that by (auto simp: exhausted_def rejected_association_def split: call.splits)
    show "exhausted None [x]" if "absorbed_probe x" for x
      using that
      by (auto simp: exhausted_def absorbed_probe_def rejected_association_def
          split: option.splits call.splits)
    show "exhausted r seg"
      if "retry_shape (AssociateExternalConnection d n x) 3 r seg" for d n x r seg
      using that by (rule retry_shape_exhausted)
  qed
  from tracesD [OF this assms] have spent: "exhausted (rejected res) tr" by simp
  fix pre x e
  assume a: "tr = pre @ [x] \<and> rejected_association x \<and> rejection x = Some e"
  with spent have "rejected res = rejection x
       \<and> (\<exists>first x1 y1 x2 y2 x3 y3. pre = first @ [x1, y1, x2, y2, x3, y3]
            \<and> called x1 = called x \<and> rejection x1 \<noteq> None \<and> called y1 = Sleep 500
            \<and> called x2 = called x \<and> rejection x2 \<noteq> None \<and> called y2 = Sleep 500
            \<and> called x3 = called x \<and> rejection x3 \<noteq> None \<and> called y3 = Sleep 500)"
    unfolding exhausted_def by blast
  with a show "res = Inl e"
    and "\<exists>first x1 y1 x2 y2 x3 y3. pre = first @ [x1, y1, x2, y2, x3, y3]
            \<and> called x1 = called x \<and> rejection x1 \<noteq> None \<and> called y1 = Sleep 500
            \<and> called x2 = called x \<and> rejection x2 \<noteq> None \<and> called y2 = Sleep 500
            \<and> called x3 = called x \<and> rejection x3 \<noteq> None \<and> called y3 = Sleep 500"
    by (cases res; simp)+
next
  have "traces (\<lambda>w r seg. policy None seg = Some r) (prepare (spy env) self)"
  proof (rule traces_prepare [OF sequential_policy])
    show "policy None [attempt env c w r] = Some r"
      if "\<forall>ms. c \<noteq> Sleep ms" "\<forall>d n x. c \<noteq> AssociateExternalConnection d n x"
        "\<not> absorbed_probe (attempt env c w r)" for c w r
      using that by (cases r; cases c) simp_all
    show "policy None [x] = Some None" if "absorbed_probe x" for x
      using that by (auto simp: absorbed_probe_def split: option.splits call.splits)
    show "policy None seg = Some r"
      if "retry_shape (AssociateExternalConnection d n x) 3 r seg" for d n x r seg
      using that by (rule retry_shape_policy)
  qed
  from tracesD [OF this assms] show "policy None tr = Some (rejected res)" by simp
qed

lemmas provision_run =
  prepare_def ensureDomain_def ensureUpstreams_def ensureRepository_def domainExists_def
  repositoryExists_def retry_unfold bind_io_def return_io_def domain_def npmUpstream_def
  mavenUpstream_def nugetUpstream_def pypiUpstream_def spy_calls spy_sleep logged_run
  rejected_def registry_calls DEFAULT_DOMAIN_def COLLECT_BY_TAG_def RESOURCE_NOT_FOUND_def
  REPO_LIFETIME_MS_def attempt_def

text \<open>The runs of provisioning in \<open>w_halfway\<close> and in \<open>w_refused\<close>.\<close>

lemma halfway_run:
  "prepare (spy registry_client) ghost (w_halfway, [])
     = (Inl boom, (w_halfway_end, halfway_log @ [halfway_stop]))"
  by (simp add: provision_run w_halfway_def w_halfway_end_def halfway_log_def halfway_stop_def
      npm_request_def boom_def ghost_def)

lemma refused_run:
  "prepare (spy registry_client) ghost (w_refused, []) = (Inl boom, (w_refused_end, refused_log))"
  by (simp add: provision_run w_refused_def w_refused_end_def refused_log_def refused_call_def
      done_at_def missing_at_def npm_request_def boom_def ghost_def)

text \<open>
  The theorem at two runs. In \<open>w_halfway\<close> the association is rejected once and retried,
  and the probe of the second upstream is rejected with a throttling error and ends the
  run. In \<open>w_refused\<close> the association is rejected four times, and the fourth rejection
  ends the run.
\<close>

theorem provisioning_retries_association_only_witness:
  "prepare (spy registry_client) ghost (w_halfway, [])
     = (Inl boom, (w_halfway_end, halfway_log @ [halfway_stop]))
   \<and> rejection halfway_stop = Some boom
   \<and> \<not> rejected_association halfway_stop \<and> \<not> absorbed_probe halfway_stop
   \<and> rejected_association (halfway_log ! 3)
   \<and> called (halfway_log ! 4) = Sleep 500
   \<and> called (halfway_log ! 5) = called (halfway_log ! 3)
   \<and> policy None (halfway_log @ [halfway_stop]) = Some (Some boom)
   \<and> prepare (spy registry_client) ghost (w_refused, []) = (Inl boom, (w_refused_end, refused_log))
   \<and> refused_log = take 3 refused_log @
       [refused_call 1000, done_at 1000 (Sleep 500), refused_call 1500, done_at 1500 (Sleep 500),
        refused_call 2000, done_at 2000 (Sleep 500)] @ [refused_call 2500]
   \<and> rejected_association (refused_call 2500)
   \<and> policy None refused_log = Some (Some boom)"
proof -
  have stop: "rejection halfway_stop = Some boom"
    "\<not> rejected_association halfway_stop" "\<not> absorbed_probe halfway_stop"
    by (simp_all add: halfway_stop_def rejected_association_def absorbed_probe_def boom_def
        RESOURCE_NOT_FOUND_def)
  have rest: "rejected_association (halfway_log ! 3)" "called (halfway_log ! 4) = Sleep 500"
    "called (halfway_log ! 5) = called (halfway_log ! 3)"
    by (simp_all add: halfway_log_def rejected_association_def)
  have last: "refused_log = take 3 refused_log @
       [refused_call 1000, done_at 1000 (Sleep 500), refused_call 1500, done_at 1500 (Sleep 500),
        refused_call 2000, done_at 2000 (Sleep 500)] @ [refused_call 2500]"
    "rejected_association (refused_call 2500)"
    by (simp_all add: refused_log_def refused_call_def rejected_association_def)
  from provisioning_retries_association_only [OF halfway_run] stop
  have "[] = ([] :: entry list) \<and> (Inl boom :: aws_error + unit) = Inl boom"
    and "policy None (halfway_log @ [halfway_stop]) = Some (rejected (Inl boom :: aws_error + unit))"
    by blast+
  moreover from provisioning_retries_association_only [OF refused_run]
  have "policy None refused_log = Some (rejected (Inl boom :: aws_error + unit))"
    by blast
  ultimately show ?thesis
    using halfway_run refused_run stop rest last by simp
qed

subsection \<open>The order of provisioning\<close>

lemma ensureRepository_log:
  assumes "ensureRepository (spy env) self name options (w, tr) = (Inr (), (w', tr'))"
  shows "tr' = tr @ [attempt env (DescribeRepository (domain self) name) w None]
     \<or> (\<exists>e w1 assoc. code e = RESOURCE_NOT_FOUND
          \<and> tr' = tr @ attempt env (DescribeRepository (domain self) name) w (Some e)
                     # attempt env (CreateRepository (request_of self name options)) w1 None
                     # assoc
          \<and> (case opt_external options of
                None \<Rightarrow> assoc = []
              | Some x \<Rightarrow> if x = [] then assoc = []
                  else retry_shape (AssociateExternalConnection (domain self) name x) 3 None assoc))"
proof (cases "fst (describeRepository env (domain self) name w)")
  case (Inr u)
  with assms show ?thesis
    by (simp add: ensureRepository_def repositoryExists_def bind_io_def return_io_def
        spy_calls logged_run)
next
  case (Inl e)
  let ?w1 = "snd (describeRepository env (domain self) name w)"
  let ?p = "attempt env (DescribeRepository (domain self) name) w (Some e)"
  let ?rq = "request_of self name options"
  from Inl assms have nf: "code e = RESOURCE_NOT_FOUND"
    by (auto simp: ensureRepository_def repositoryExists_def bind_io_def spy_calls logged_run
        split: if_splits)
  show ?thesis
  proof (cases "fst (createRepository env ?rq ?w1)")
    case cr: (Inl e')
    with Inl nf assms show ?thesis
      by (simp add: ensureRepository_def repositoryExists_def bind_io_def spy_calls logged_run
          request_of_def)
  next
    case cr: (Inr u)
    let ?w2 = "snd (createRepository env ?rq ?w1)"
    let ?c = "attempt env (CreateRepository ?rq) ?w1 None"
    let ?tr2 = "tr @ [?p, ?c]"
    from Inl nf cr assms
    have rest: "(case opt_external options of
          None \<Rightarrow> return_io ()
        | Some x \<Rightarrow> if x = [] then return_io ()
            else retry (spy env) (logged env (AssociateExternalConnection (domain self) name x)
                   (associateExternalConnection env (domain self) name x))) (?w2, ?tr2)
        = (Inr (), (w', tr'))"
      by (simp add: ensureRepository_def repositoryExists_def bind_io_def spy_calls logged_run
          request_of_def cong: option.case_cong if_cong)
    have "\<exists>assoc. tr' = ?tr2 @ assoc
        \<and> (case opt_external options of
              None \<Rightarrow> assoc = []
            | Some x \<Rightarrow> if x = [] then assoc = []
                else retry_shape (AssociateExternalConnection (domain self) name x) 3 None assoc)"
    proof (cases "opt_external options")
      case None
      with rest show ?thesis by (simp add: return_io_def)
    next
      case (Some x)
      show ?thesis
      proof (cases "x = []")
        case True
        with Some rest show ?thesis by (simp add: return_io_def)
      next
        case False
        with Some rest retry_log [of env "AssociateExternalConnection (domain self) name x"
            "associateExternalConnection env (domain self) name x" ?w2 ?tr2 "Inr ()" w' tr']
        show ?thesis by simp
      qed
    qed
    then obtain assoc where assoc: "tr' = ?tr2 @ assoc"
      "case opt_external options of
          None \<Rightarrow> assoc = []
        | Some x \<Rightarrow> if x = [] then assoc = []
            else retry_shape (AssociateExternalConnection (domain self) name x) 3 None assoc"
      by blast
    have "\<exists>e w1 assoc. code e = RESOURCE_NOT_FOUND
          \<and> tr' = tr @ attempt env (DescribeRepository (domain self) name) w (Some e)
                     # attempt env (CreateRepository (request_of self name options)) w1 None
                     # assoc
          \<and> (case opt_external options of
                None \<Rightarrow> assoc = []
              | Some x \<Rightarrow> if x = [] then assoc = []
                  else retry_shape (AssociateExternalConnection (domain self) name x) 3 None assoc)"
      by (rule exI [of _ e], rule exI [of _ ?w1], rule exI [of _ assoc])
         (use nf assoc in simp)
    then show ?thesis by (rule disjI2)
  qed
qed

lemma ensureDomain_log:
  assumes "ensureDomain (spy env) self (w, tr) = (Inr (), (w', tr'))"
  shows "\<exists>seg. tr' = tr @ seg \<and> domain_step seg"
proof (cases "fst (describeDomain env (domain self) w)")
  case (Inr u)
  with assms have "tr' = tr @ [attempt env (DescribeDomain ''test-cdk'') w None]"
    by (simp add: ensureDomain_def domainExists_def bind_io_def return_io_def
        spy_calls logged_run domain_def DEFAULT_DOMAIN_def)
  then show ?thesis
    by (auto simp: domain_step_def probe_then_def attempt_def)
next
  case (Inl e)
  let ?w1 = "snd (describeDomain env (domain self) w)"
  let ?ts = "[\<lparr>tag_key = ''testing'', tag_value = ''true''\<rparr>]"
  from Inl assms have nf: "code e = RESOURCE_NOT_FOUND"
    by (auto simp: ensureDomain_def domainExists_def bind_io_def spy_calls logged_run
        split: if_splits)
  with Inl assms have "tr' = tr @ [attempt env (DescribeDomain ''test-cdk'') w (Some e),
      attempt env (CreateDomain ''test-cdk'' ?ts) ?w1 None]"
    by (cases "fst (createDomain env (domain self) ?ts ?w1)")
       (auto simp: ensureDomain_def domainExists_def bind_io_def return_io_def
        spy_calls logged_run domain_def DEFAULT_DOMAIN_def)
  with nf show ?thesis
    by (auto simp: domain_step_def probe_then_def attempt_def RESOURCE_NOT_FOUND_def)
qed

lemma upstream_log:
  assumes "ensureRepository (spy env) self name
      \<lparr>opt_description = Some description, opt_external = Some external,
       opt_upstreams = None, opt_tags = None\<rparr> (w, tr) = (Inr (), (w', tr'))"
    and "external \<noteq> []"
  shows "\<exists>seg. tr' = tr @ seg \<and> upstream_step name description external seg"
  using ensureRepository_log [OF assms(1)] assms(2)
  by (auto simp: upstream_step_def probe_then_def attempt_def request_of_def domain_def
      DEFAULT_DOMAIN_def RESOURCE_NOT_FOUND_def)

lemma bind_io_success:
  assumes "bind_io m f s = (Inr b, s')"
  obtains a s1 where "m s = (Inr a, s1)" and "f a s1 = (Inr b, s')"
  using assms by (auto simp: bind_io_def split: prod.splits sum.splits)

lemma sandbox_log:
  assumes "ensureRepository (spy env) self name
      \<lparr>opt_description = Some ''Testing repository'', opt_external = None,
       opt_upstreams = Some [''npm-upstream'', ''pypi-upstream'', ''nuget-upstream'',
                             ''maven-upstream''],
       opt_tags = Some [(''collect-by'', numberToString (dateNow env w + 24 * 3600 * 1000))]\<rparr>
      (w, tr) = (Inr (), (w', tr'))"
  shows "\<exists>seg. tr' = tr @ seg \<and> sandbox_step name seg"
  using ensureRepository_log [OF assms]
  by (auto simp: sandbox_step_def probe_then_def attempt_def request_of_def domain_def
      DEFAULT_DOMAIN_def RESOURCE_NOT_FOUND_def)

lemma ensureUpstreams_log:
  assumes "ensureUpstreams (spy env) self (w, tr) = (Inr (), (w', tr'))"
  shows "\<exists>b c d e. tr' = tr @ b @ c @ d @ e
     \<and> upstream_step ''npm-upstream'' ''The upstream repository for NPM'' ''public:npmjs'' b
     \<and> upstream_step ''maven-upstream'' ''The upstream repository for Maven''
          ''public:maven-central'' c
     \<and> upstream_step ''nuget-upstream'' ''The upstream repository for NuGet''
          ''public:nuget-org'' d
     \<and> upstream_step ''pypi-upstream'' ''The upstream repository for PyPI'' ''public:pypi'' e"
proof -
  from assms obtain s1 s2 s3
    where npm: "ensureRepository (spy env) self ''npm-upstream''
        \<lparr>opt_description = Some ''The upstream repository for NPM'',
         opt_external = Some ''public:npmjs'', opt_upstreams = None, opt_tags = None\<rparr> (w, tr)
        = (Inr (), s1)"
      and maven: "ensureRepository (spy env) self ''maven-upstream''
        \<lparr>opt_description = Some ''The upstream repository for Maven'',
         opt_external = Some ''public:maven-central'', opt_upstreams = None, opt_tags = None\<rparr> s1
        = (Inr (), s2)"
      and nuget: "ensureRepository (spy env) self ''nuget-upstream''
        \<lparr>opt_description = Some ''The upstream repository for NuGet'',
         opt_external = Some ''public:nuget-org'', opt_upstreams = None, opt_tags = None\<rparr> s2
        = (Inr (), s3)"
      and pypi: "ensureRepository (spy env) self ''pypi-upstream''
        \<lparr>opt_description = Some ''The upstream repository for PyPI'',
         opt_external = Some ''public:pypi'', opt_upstreams = None, opt_tags = None\<rparr> s3
        = (Inr (), (w', tr'))"
    unfolding ensureUpstreams_def npmUpstream_def mavenUpstream_def nugetUpstream_def
      pypiUpstream_def
    by (elim bind_io_success) auto
  obtain w1 tr1 where s1: "s1 = (w1, tr1)" by (cases s1)
  obtain w2 tr2 where s2: "s2 = (w2, tr2)" by (cases s2)
  obtain w3 tr3 where s3: "s3 = (w3, tr3)" by (cases s3)
  from upstream_log [OF npm [unfolded s1]] obtain b
    where b: "tr1 = tr @ b"
      "upstream_step ''npm-upstream'' ''The upstream repository for NPM'' ''public:npmjs'' b"
    by auto
  from upstream_log [OF maven [unfolded s1 s2]] obtain c
    where c: "tr2 = tr1 @ c"
      "upstream_step ''maven-upstream'' ''The upstream repository for Maven''
          ''public:maven-central'' c"
    by auto
  from upstream_log [OF nuget [unfolded s2 s3]] obtain d
    where d: "tr3 = tr2 @ d"
      "upstream_step ''nuget-upstream'' ''The upstream repository for NuGet''
          ''public:nuget-org'' d"
    by auto
  from upstream_log [OF pypi [unfolded s3]] obtain e
    where e: "tr' = tr3 @ e"
      "upstream_step ''pypi-upstream'' ''The upstream repository for PyPI'' ''public:pypi'' e"
    by auto
  from b c d e show ?thesis by auto
qed

text \<open>
  Claim C4, as stated, fails: the last step creates the sandbox only when its probe is
  answered with not-found (line 147). In \<open>w_ready\<close> the sandbox \<open>ghost\<close> is provisioned
  already, and provisioning it again succeeds with six probes and no creation. And from
  the empty registry, provisioning a sandbox named \<^verbatim>\<open>npm-upstream\<close> succeeds without
  ever creating a repository with the description, the upstreams or the \<^verbatim>\<open>collect-by\<close>
  tag of a sandbox: the one repository of that name is created as the upstream, and the
  last step finds it.
\<close>

theorem provisioning_order_counterexample:
  "prepare (spy registry_client) ghost (w_ready, []) = (Inr (), (w_ready, ready_log))
   \<and> creations ''test-ghost'' ready_log = 0
   \<and> prepare (spy registry_client) (existing ''npm-upstream'') (w_empty, [])
       = (Inr (), (w_upstreams, namesake_log))
   \<and> filter (creates ''npm-upstream'') namesake_log
       = [done_at 1000 (CreateRepository
            (upstream_request ''npm-upstream'' ''The upstream repository for NPM''))]
   \<and> cr_upstreams (upstream_request ''npm-upstream'' ''The upstream repository for NPM'') = None
   \<and> cr_tags (upstream_request ''npm-upstream'' ''The upstream repository for NPM'') = None"
proof -
  have again: "prepare (spy registry_client) ghost (w_ready, []) = (Inr (), (w_ready, ready_log))"
    by (simp add: provision_run w_ready_def w_upstreams_def ready_log_def done_at_def ghost_def)
  have namesake: "prepare (spy registry_client) (existing ''npm-upstream'') (w_empty, [])
       = (Inr (), (w_upstreams, namesake_log))"
    by (simp add: provision_run w_empty_def w_upstreams_def namesake_log_def done_at_def
        missing_at_def upstream_request_def existing_def)
  have none: "creations ''test-ghost'' ready_log = 0"
    by (simp add: creations_def creates_def ready_log_def done_at_def)
  have one: "filter (creates ''npm-upstream'') namesake_log
       = [done_at 1000 (CreateRepository
            (upstream_request ''npm-upstream'' ''The upstream repository for NPM''))]"
    by (simp add: creates_def namesake_log_def done_at_def missing_at_def upstream_request_def)
  from again none namesake one show ?thesis
    by (simp add: upstream_request_def)
qed

text \<open>
  Claim C4, amended. The log of a provisioning run that succeeds is made of six steps in
  order: the domain (describe, and create on not-found), the upstreams npm, maven, nuget
  and pypi (describe, and on not-found create, then associate the external connection,
  retried as the helper does), and the sandbox (describe, and on not-found, and only then,
  create with the description, the four upstream names and a \<^verbatim>\<open>collect-by\<close> tag that
  holds the clock reading taken before the probe plus 24 hours, in decimal).
\<close>

theorem provisioning_order:
  assumes "prepare (spy env) self (w, []) = (Inr (), (w', tr))"
  shows "\<exists>a b c d e f. tr = a @ b @ c @ d @ e @ f
     \<and> domain_step a
     \<and> upstream_step ''npm-upstream'' ''The upstream repository for NPM'' ''public:npmjs'' b
     \<and> upstream_step ''maven-upstream'' ''The upstream repository for Maven''
          ''public:maven-central'' c
     \<and> upstream_step ''nuget-upstream'' ''The upstream repository for NuGet''
          ''public:nuget-org'' d
     \<and> upstream_step ''pypi-upstream'' ''The upstream repository for PyPI'' ''public:pypi'' e
     \<and> sandbox_step (repositoryName self) f"
proof -
  from assms obtain s1 s2
    where dom: "ensureDomain (spy env) self (w, []) = (Inr (), s1)"
      and ups: "ensureUpstreams (spy env) self s1 = (Inr (), s2)"
      and box: "ensureRepository (spy env) self (repositoryName self)
        \<lparr>opt_description = Some ''Testing repository'', opt_external = None,
         opt_upstreams = Some [npmUpstream self, pypiUpstream self, nugetUpstream self,
                               mavenUpstream self],
         opt_tags = Some [(COLLECT_BY_TAG,
                           numberToString (dateNow (spy env) s2 + REPO_LIFETIME_MS))]\<rparr> s2
        = (Inr (), (w', tr))"
    unfolding prepare_def by (elim bind_io_success) auto
  obtain w1 tr1 where s1: "s1 = (w1, tr1)" by (cases s1)
  obtain w2 tr2 where s2: "s2 = (w2, tr2)" by (cases s2)
  from ensureDomain_log [OF dom [unfolded s1]] obtain a
    where a: "tr1 = a" "domain_step a" by auto
  from ensureUpstreams_log [OF ups [unfolded s1 s2]] obtain b c d e
    where u: "tr2 = tr1 @ b @ c @ d @ e"
      "upstream_step ''npm-upstream'' ''The upstream repository for NPM'' ''public:npmjs'' b"
      "upstream_step ''maven-upstream'' ''The upstream repository for Maven''
          ''public:maven-central'' c"
      "upstream_step ''nuget-upstream'' ''The upstream repository for NuGet''
          ''public:nuget-org'' d"
      "upstream_step ''pypi-upstream'' ''The upstream repository for PyPI'' ''public:pypi'' e"
    by blast
  from box have "ensureRepository (spy env) self (repositoryName self)
      \<lparr>opt_description = Some ''Testing repository'', opt_external = None,
       opt_upstreams = Some [''npm-upstream'', ''pypi-upstream'', ''nuget-upstream'',
                             ''maven-upstream''],
       opt_tags = Some [(''collect-by'', numberToString (dateNow env w2 + 24 * 3600 * 1000))]\<rparr>
      (w2, tr2) = (Inr (), (w', tr))"
    by (simp add: s2 spy_calls npmUpstream_def pypiUpstream_def nugetUpstream_def
        mavenUpstream_def COLLECT_BY_TAG_def REPO_LIFETIME_MS_def)
  from sandbox_log [OF this] obtain f where f: "tr = tr2 @ f" "sandbox_step (repositoryName self) f"
    by blast
  from a u f have "tr = a @ b @ c @ d @ e @ f" by simp
  with a u f show ?thesis by blast
qed

text \<open>The run of provisioning in the empty registry.\<close>

lemma fresh_run:
  "fst (prepare (spy registry_client) ghost (w_empty, [])) = Inr ()
   \<and> snd (snd (prepare (spy registry_client) ghost (w_empty, []))) = fresh_log"
  by (simp add: provision_run w_empty_def fresh_log_def done_at_def missing_at_def
      upstream_request_def sandbox_request_def ghost_def numberToString_def digitsOf.simps)

text \<open>The theorem at the run from the empty registry.\<close>

theorem provisioning_order_witness:
  "fst (prepare (spy registry_client) ghost (w_empty, [])) = Inr ()
   \<and> (\<exists>a b c d e f. fresh_log = a @ b @ c @ d @ e @ f
     \<and> domain_step a
     \<and> upstream_step ''npm-upstream'' ''The upstream repository for NPM'' ''public:npmjs'' b
     \<and> upstream_step ''maven-upstream'' ''The upstream repository for Maven''
          ''public:maven-central'' c
     \<and> upstream_step ''nuget-upstream'' ''The upstream repository for NuGet''
          ''public:nuget-org'' d
     \<and> upstream_step ''pypi-upstream'' ''The upstream repository for PyPI'' ''public:pypi'' e
     \<and> sandbox_step ''test-ghost'' f)"
proof -
  from fresh_run
  have run: "prepare (spy registry_client) ghost (w_empty, [])
      = (Inr (), (fst (snd (prepare (spy registry_client) ghost (w_empty, []))), fresh_log))"
    by (metis prod.collapse)
  from provisioning_order [OF run] fresh_run show ?thesis
    by (simp add: ghost_def)
qed

subsection \<open>The reference registry\<close>

lemma has_repo_entry: "has_repo s d n = (has_domain s d \<and> has_entry s d n)"
  by (simp add: has_repo_def has_entry_def)

lemma answering_calm: "reg_faults s = [] \<Longrightarrow> answering op s = op s"
  by (simp add: answering_def)

lemma answering_pass: "reg_faults s = None # plan \<Longrightarrow> answering op s = op (s\<lparr>reg_faults := plan\<rparr>)"
  by (simp add: answering_def)

lemma answering_fail:
  "reg_faults s = Some e # plan \<Longrightarrow> answering op s = (Inl e, s\<lparr>reg_faults := plan\<rparr>)"
  by (simp add: answering_def)

lemma client_calls:
  "describeDomain registry_client = reg_describeDomain"
  "createDomain registry_client = reg_createDomain"
  "describeRepository registry_client = reg_describeRepository"
  "createRepository registry_client = reg_createRepository"
  "associateExternalConnection registry_client = reg_associateExternalConnection"
  "deleteRepository registry_client = reg_deleteRepository"
  "dateNow registry_client = reg_clock"
  "sleep registry_client ms s = s\<lparr>reg_clock := reg_clock s + int ms\<rparr>"
  by (simp_all add: registry_client_def)

subsection \<open>An association that failed is not tried again\<close>

text \<open>A call that finds the repository makes the probe and nothing else.\<close>

lemma ensureRepository_present:
  assumes "describeRepository env (domain self) name w = (Inr (), w')"
  shows "ensureRepository (spy env) self name options (w, tr)
     = (Inr (), (w', tr @ [attempt env (DescribeRepository (domain self) name) w None]))"
  using assms
  by (simp add: ensureRepository_def repositoryExists_def bind_io_def return_io_def
      spy_calls logged_run)

text \<open>
  Claim C9. On the reference registry: when the repository is missing, its creation
  succeeds and the association is rejected four times, \<open>ensureRepository\<close> raises the
  fourth rejection after three sleeps, and the repository is in the registry without an
  external connection. From then on, in any state that holds the repository and injects
  no rejection, \<open>ensureRepository\<close> for that name, whatever its options, makes the
  probe, returns, and leaves the registry as it is: the association is not attempted.
\<close>

theorem association_never_repaired:
  assumes plan: "reg_faults s = [None, None, Some e1, Some e2, Some e3, Some e4]"
    and dom: "has_domain s (domain self)"
    and absent: "\<not> has_repo s (domain self) name"
    and ext: "opt_external options = Some x" "x \<noteq> []"
    and ups: "\<forall>u \<in> set (case opt_upstreams options of None \<Rightarrow> [] | Some us \<Rightarrow> us).
                has_repo s (domain self) u"
  shows "\<exists>s1 seg. ensureRepository (spy registry_client) self name options (s, []) = (Inl e4, (s1, seg))
           \<and> map called seg =
               [DescribeRepository (domain self) name,
                CreateRepository (request_of self name options),
                AssociateExternalConnection (domain self) name x, Sleep 500,
                AssociateExternalConnection (domain self) name x, Sleep 500,
                AssociateExternalConnection (domain self) name x, Sleep 500,
                AssociateExternalConnection (domain self) name x]
           \<and> map rejection seg =
               [Some notFound, None, Some e1, None, Some e2, None, Some e3, None, Some e4]
           \<and> has_repo s1 (domain self) name
           \<and> (\<forall>r \<in> set (reg_repos s1). is_repo (domain self) name r \<longrightarrow> rs_external r = [])
           \<and> reg_faults s1 = []
           \<and> (\<forall>s2 options' tr. has_repo s2 (domain self) name \<and> reg_faults s2 = []
                \<longrightarrow> ensureRepository (spy registry_client) self name options' (s2, tr)
                    = (Inr (), (s2, tr @ [attempt registry_client
                         (DescribeRepository (domain self) name) s2 None])))"
proof -
  let ?d = "domain self"
  let ?new = "\<lparr>rs_domain = ?d, rs_name = name, rs_description = opt_description options,
      rs_upstreams = (case opt_upstreams options of None \<Rightarrow> [] | Some us \<Rightarrow> us),
      rs_tags = (case map_option (map (\<lambda>(k, v). \<lparr>tag_key = k, tag_value = v\<rparr>)) (opt_tags options)
                 of None \<Rightarrow> [] | Some ts \<Rightarrow> ts),
      rs_external = []\<rparr>"
  let ?s1 = "s\<lparr>reg_faults := [], reg_repos := reg_repos s @ [?new], reg_clock := reg_clock s + 1500\<rparr>"
  let ?run = "ensureRepository (spy registry_client) self name options (s, [])"
  note unfold = ensureRepository_def repositoryExists_def bind_io_def retry_unfold
    spy_calls spy_sleep logged_run client_calls reg_describeRepository_def
    reg_createRepository_def reg_associateExternalConnection_def answering_def has_repo_def
    has_domain_def notFound_def request_of_def
  from absent dom have none: "\<forall>r \<in> set (reg_repos s). \<not> is_repo ?d name r"
    by (simp add: has_repo_def)
  have res: "fst ?run = Inl e4" and state: "fst (snd ?run) = ?s1"
    using plan dom absent ext ups by (simp_all add: unfold)
  have calls: "map called (snd (snd ?run)) =
               [DescribeRepository ?d name, CreateRepository (request_of self name options),
                AssociateExternalConnection ?d name x, Sleep 500,
                AssociateExternalConnection ?d name x, Sleep 500,
                AssociateExternalConnection ?d name x, Sleep 500,
                AssociateExternalConnection ?d name x]"
    using plan dom absent ext ups by (simp add: unfold)
  have rejections: "map rejection (snd (snd ?run)) =
               [Some notFound, None, Some e1, None, Some e2, None, Some e3, None, Some e4]"
    using plan dom absent ext ups by (simp add: unfold)
  from res state have run: "?run = (Inl e4, (?s1, snd (snd ?run)))"
    by (metis prod.collapse)
  have there: "has_repo ?s1 ?d name"
    using dom by (simp add: has_repo_def has_domain_def is_repo_def)
  have bare: "\<forall>r \<in> set (reg_repos ?s1). is_repo ?d name r \<longrightarrow> rs_external r = []"
    using none by auto
  have later: "ensureRepository (spy registry_client) self name options' (s2, tr)
      = (Inr (), (s2, tr @ [attempt registry_client (DescribeRepository ?d name) s2 None]))"
    if "has_repo s2 ?d name \<and> reg_faults s2 = []" for s2 options' tr
  proof (rule ensureRepository_present)
    from that show "describeRepository registry_client ?d name s2 = (Inr (), s2)"
      by (simp add: client_calls reg_describeRepository_def answering_calm)
  qed
  have calm: "reg_faults ?s1 = []" by simp
  show ?thesis
  proof (intro exI conjI)
    show "?run = (Inl e4, (?s1, snd (snd ?run)))" by (rule run)
    show "map called (snd (snd ?run)) =
               [DescribeRepository ?d name, CreateRepository (request_of self name options),
                AssociateExternalConnection ?d name x, Sleep 500,
                AssociateExternalConnection ?d name x, Sleep 500,
                AssociateExternalConnection ?d name x, Sleep 500,
                AssociateExternalConnection ?d name x]"
      by (rule calls)
    show "map rejection (snd (snd ?run)) =
               [Some notFound, None, Some e1, None, Some e2, None, Some e3, None, Some e4]"
      by (rule rejections)
    show "has_repo ?s1 ?d name" by (rule there)
    show "\<forall>r \<in> set (reg_repos ?s1). is_repo ?d name r \<longrightarrow> rs_external r = []"
      by (rule bare)
    show "reg_faults ?s1 = []" by (rule calm)
    show "\<forall>s2 options' tr. has_repo s2 ?d name \<and> reg_faults s2 = []
        \<longrightarrow> ensureRepository (spy registry_client) self name options' (s2, tr)
            = (Inr (), (s2, tr @ [attempt registry_client (DescribeRepository ?d name) s2 None]))"
      using later by blast
  qed
qed

text \<open>The theorem at the npm upstream in \<open>w_stuck\<close>.\<close>

theorem association_never_repaired_witness:
  "fst (ensureRepository (spy registry_client) ghost ''npm-upstream''
         (upstream_options ''The upstream repository for NPM'' ''public:npmjs'') (w_stuck, []))
     = Inl boom
   \<and> has_repo (fst (snd (ensureRepository (spy registry_client) ghost ''npm-upstream''
         (upstream_options ''The upstream repository for NPM'' ''public:npmjs'') (w_stuck, []))))
       ''test-cdk'' ''npm-upstream''
   \<and> map called (snd (snd (ensureRepository (spy registry_client) ghost ''npm-upstream''
         (upstream_options ''The upstream repository for NPM'' ''public:npmjs'')
         (fst (snd (ensureRepository (spy registry_client) ghost ''npm-upstream''
            (upstream_options ''The upstream repository for NPM'' ''public:npmjs'')
            (w_stuck, []))),
          []))))
     = [DescribeRepository ''test-cdk'' ''npm-upstream'']"
proof -
  let ?o = "upstream_options ''The upstream repository for NPM'' ''public:npmjs''"
  have plan: "reg_faults w_stuck = [None, None, Some boom, Some boom, Some boom, Some boom]"
    and dom: "has_domain w_stuck (domain ghost)"
    and absent: "\<not> has_repo w_stuck (domain ghost) ''npm-upstream''"
    and ext: "opt_external ?o = Some ''public:npmjs''" "''public:npmjs'' \<noteq> []"
    and ups: "\<forall>u \<in> set (case opt_upstreams ?o of None \<Rightarrow> [] | Some us \<Rightarrow> us).
                has_repo w_stuck (domain ghost) u"
    by (simp_all add: w_stuck_def has_domain_def has_repo_def domain_def DEFAULT_DOMAIN_def
        upstream_options_def)
  from association_never_repaired [OF plan dom absent ext ups] obtain s1 seg
    where run: "ensureRepository (spy registry_client) ghost ''npm-upstream'' ?o (w_stuck, [])
        = (Inl boom, (s1, seg))"
      and there: "has_repo s1 (domain ghost) ''npm-upstream''"
      and calm: "reg_faults s1 = []"
      and later: "\<forall>s2 options' tr. has_repo s2 (domain ghost) ''npm-upstream'' \<and> reg_faults s2 = []
          \<longrightarrow> ensureRepository (spy registry_client) ghost ''npm-upstream'' options' (s2, tr)
              = (Inr (), (s2, tr @ [attempt registry_client
                   (DescribeRepository (domain ghost) ''npm-upstream'') s2 None]))"
    by blast
  from later there calm
  have "ensureRepository (spy registry_client) ghost ''npm-upstream'' ?o (s1, [])
      = (Inr (), (s1, [] @ [attempt registry_client
           (DescribeRepository (domain ghost) ''npm-upstream'') s1 None]))"
    by blast
  with run there show ?thesis
    by (simp add: domain_def DEFAULT_DOMAIN_def)
qed

subsection \<open>Provisioning twice\<close>

lemma creations_simps [simp]:
  "creations n [] = 0"
  "creations n (xs @ ys) = creations n xs + creations n ys"
  "creations n (attempt env c w r # xs) =
     (case c of CreateRepository rq \<Rightarrow> if cr_repository rq = n then 1 else 0 | _ \<Rightarrow> 0)
     + creations n xs"
  by (simp_all add: creations_def creates_def split: call.splits)

lemma has_entry_simps [simp]:
  "has_entry (s\<lparr>reg_faults := fs\<rparr>) d n = has_entry s d n"
  "has_entry (s\<lparr>reg_clock := t\<rparr>) d n = has_entry s d n"
  "has_entry (s\<lparr>reg_domains := ds\<rparr>) d n = has_entry s d n"
  "has_entry (s\<lparr>reg_repos := rs @ [r]\<rparr>) d n
     = (has_entry (s\<lparr>reg_repos := rs\<rparr>) d n \<or> is_repo d n r)"
  "has_entry (s\<lparr>reg_repos := reg_repos s\<rparr>) d n = has_entry s d n"
  by (auto simp: has_entry_def)

lemma has_domain_simps [simp]:
  "has_domain (s\<lparr>reg_faults := fs\<rparr>) d = has_domain s d"
  "has_domain (s\<lparr>reg_clock := t\<rparr>) d = has_domain s d"
  "has_domain (s\<lparr>reg_repos := rs\<rparr>) d = has_domain s d"
  "has_domain (s\<lparr>reg_domains := reg_domains s @ [d']\<rparr>) d = (has_domain s d \<or> d = d')"
  by (auto simp: has_domain_def)

lemma map_unless:
  "\<forall>r \<in> set rs. \<not> P r \<Longrightarrow> map (\<lambda>r. if P r then f r else r) rs = rs"
  by (induction rs) simp_all

text \<open>What \<open>ensureRepository\<close> does in a registry that injects no rejection.\<close>

lemma ensureRepository_calm:
  assumes calm: "reg_faults s = []"
    and dom: "has_domain s (domain self)"
    and ups: "\<forall>u \<in> set (case opt_upstreams options of None \<Rightarrow> [] | Some us \<Rightarrow> us).
                has_entry s (domain self) u"
  shows "ensureRepository (spy registry_client) self n options (s, tr) =
     (if has_entry s (domain self) n
      then (Inr (), (s, tr @ [attempt registry_client (DescribeRepository (domain self) n) s None]))
      else (Inr (), (s\<lparr>reg_repos := reg_repos s @ [new_repo (domain self) n options]\<rparr>,
             tr @ attempt registry_client (DescribeRepository (domain self) n) s (Some notFound)
                # attempt registry_client (CreateRepository (request_of self n options)) s None
                # (case opt_external options of
                     None \<Rightarrow> []
                   | Some x \<Rightarrow> if x = [] then []
                       else [attempt registry_client
                               (AssociateExternalConnection (domain self) n x)
                               (s\<lparr>reg_repos := reg_repos s
                                    @ [(new_repo (domain self) n options)\<lparr>rs_external := []\<rparr>]\<rparr>)
                               None]))))"
proof (cases "has_entry s (domain self) n")
  case True
  with calm dom have "describeRepository registry_client (domain self) n s = (Inr (), s)"
    by (simp add: client_calls reg_describeRepository_def answering_calm has_repo_entry)
  from ensureRepository_present [OF this] True show ?thesis by simp
next
  case False
  let ?d = "domain self"
  let ?bare = "(new_repo ?d n options)\<lparr>rs_external := []\<rparr>"
  let ?s1 = "s\<lparr>reg_repos := reg_repos s @ [?bare]\<rparr>"
  from False have none: "\<forall>r \<in> set (reg_repos s). \<not> is_repo ?d n r"
    by (simp add: has_entry_def)
  have probe: "describeRepository registry_client ?d n s = (Inl notFound, s)"
    using calm False
    by (simp add: client_calls reg_describeRepository_def answering_calm has_repo_entry)
  have create: "createRepository registry_client (request_of self n options) s = (Inr (), ?s1)"
    using calm dom False ups
    by (cases "opt_tags options")
       (simp_all add: client_calls reg_createRepository_def answering_calm has_repo_entry
        request_of_def new_repo_def)
  have assoc: "associateExternalConnection registry_client ?d n x ?s1
      = (Inr (), s\<lparr>reg_repos := reg_repos s @ [?bare\<lparr>rs_external := [x]\<rparr>]\<rparr>)" for x
    using calm dom none
    by (simp add: client_calls reg_associateExternalConnection_def answering_calm
        has_repo_entry has_entry_def map_unless)
       (simp add: is_repo_def new_repo_def)
  show ?thesis
  proof (cases "opt_external options")
    case None
    with False probe create show ?thesis
      by (simp add: ensureRepository_def repositoryExists_def bind_io_def return_io_def
          spy_calls logged_run notFound_def request_of_def new_repo_def)
  next
    case (Some x)
    show ?thesis
    proof (cases "x = []")
      case True
      with Some False probe create show ?thesis
        by (simp add: ensureRepository_def repositoryExists_def bind_io_def return_io_def
            spy_calls logged_run notFound_def request_of_def new_repo_def)
    next
      case nonempty: False
      with Some False probe create assoc [of x] show ?thesis
        by (simp add: ensureRepository_def repositoryExists_def bind_io_def return_io_def
            retry_unfold spy_calls logged_run notFound_def request_of_def new_repo_def)
    qed
  qed
qed

lemma ensureRepository_step:
  assumes calm: "reg_faults s = []"
    and dom: "has_domain s (domain self)"
    and ups: "\<forall>u \<in> set (case opt_upstreams options of None \<Rightarrow> [] | Some us \<Rightarrow> us).
                has_entry s (domain self) u"
  obtains s' seg where
    "ensureRepository (spy registry_client) self n options (s, tr) = (Inr (), (s', tr @ seg))"
    "reg_faults s' = []" "has_domain s' (domain self)" "reg_clock s' = reg_clock s"
    "\<forall>m. has_entry s' (domain self) m = (has_entry s (domain self) m \<or> m = n)"
    "\<forall>m. creations m seg = (if m = n \<and> \<not> has_entry s (domain self) n then 1 else 0)"
    "has_entry s (domain self) n \<longrightarrow>
       s' = s \<and> seg = [attempt registry_client (DescribeRepository (domain self) n) s None]"
proof (cases "has_entry s (domain self) n")
  case True
  let ?seg = "[attempt registry_client (DescribeRepository (domain self) n) s None]"
  from ensureRepository_calm [OF calm dom ups, of n tr] True
  have "ensureRepository (spy registry_client) self n options (s, tr) = (Inr (), (s, tr @ ?seg))"
    by simp
  moreover from True have "\<forall>m. has_entry s (domain self) m = (has_entry s (domain self) m \<or> m = n)"
    by auto
  moreover from True
  have "\<forall>m. creations m ?seg = (if m = n \<and> \<not> has_entry s (domain self) n then 1 else 0)"
    by simp
  ultimately show ?thesis using that [of s ?seg] calm dom by simp
next
  case False
  let ?d = "domain self"
  let ?s' = "s\<lparr>reg_repos := reg_repos s @ [new_repo ?d n options]\<rparr>"
  let ?assoc = "case opt_external options of
      None \<Rightarrow> []
    | Some x \<Rightarrow> if x = [] then []
        else [attempt registry_client (AssociateExternalConnection ?d n x)
                (s\<lparr>reg_repos := reg_repos s @ [(new_repo ?d n options)\<lparr>rs_external := []\<rparr>]\<rparr>)
                None]"
  let ?seg = "attempt registry_client (DescribeRepository ?d n) s (Some notFound)
      # attempt registry_client (CreateRepository (request_of self n options)) s None
      # ?assoc"
  from ensureRepository_calm [OF calm dom ups, of n tr] False
  have run: "ensureRepository (spy registry_client) self n options (s, tr)
      = (Inr (), (?s', tr @ ?seg))"
    by simp
  have zero: "creations m ?assoc = 0" for m
    by (cases "opt_external options") simp_all
  have count: "\<forall>m. creations m ?seg = (if m = n \<and> \<not> has_entry s ?d n then 1 else 0)"
    using False zero by (simp add: request_of_def)
  have entries: "\<forall>m. has_entry ?s' ?d m = (has_entry s ?d m \<or> m = n)"
    by (auto simp: is_repo_def new_repo_def)
  from that [of ?s' ?seg] run count entries False calm dom show ?thesis
    by simp
qed

lemma ensureDomain_step:
  assumes calm: "reg_faults s = []"
  obtains s' seg where
    "ensureDomain (spy registry_client) self (s, tr) = (Inr (), (s', tr @ seg))"
    "reg_faults s' = []" "has_domain s' (domain self)" "reg_clock s' = reg_clock s"
    "\<forall>m. has_entry s' (domain self) m = has_entry s (domain self) m"
    "\<forall>m. creations m seg = 0"
    "has_domain s (domain self) \<longrightarrow>
       s' = s \<and> seg = [attempt registry_client (DescribeDomain (domain self)) s None]"
proof (cases "has_domain s (domain self)")
  case True
  let ?seg = "[attempt registry_client (DescribeDomain (domain self)) s None]"
  from calm True
  have "ensureDomain (spy registry_client) self (s, tr) = (Inr (), (s, tr @ ?seg))"
    by (simp add: ensureDomain_def domainExists_def bind_io_def return_io_def spy_calls
        logged_run client_calls reg_describeDomain_def answering_calm)
  with that [of s ?seg] calm True show ?thesis by simp
next
  case False
  let ?d = "domain self"
  let ?ts = "[\<lparr>tag_key = ''testing'', tag_value = ''true''\<rparr>]"
  let ?s' = "s\<lparr>reg_domains := reg_domains s @ [?d]\<rparr>"
  let ?seg = "[attempt registry_client (DescribeDomain ?d) s (Some notFound),
      attempt registry_client (CreateDomain ?d ?ts) s None]"
  from calm False
  have "ensureDomain (spy registry_client) self (s, tr) = (Inr (), (?s', tr @ ?seg))"
    by (simp add: ensureDomain_def domainExists_def bind_io_def return_io_def spy_calls
        logged_run client_calls reg_describeDomain_def reg_createDomain_def answering_calm
        notFound_def)
  with that [of ?s' ?seg] calm False show ?thesis by simp
qed

lemma prepare_step:
  assumes calm: "reg_faults s = []"
  obtains s' seg where
    "prepare (spy registry_client) self (s, tr) = (Inr (), (s', tr @ seg))"
    "reg_faults s' = []" "has_domain s' (domain self)"
    "\<forall>m. has_entry s' (domain self) m =
       (has_entry s (domain self) m
        \<or> m \<in> {npmUpstream self, mavenUpstream self, nugetUpstream self, pypiUpstream self,
                 repositoryName self})"
    "creations (repositoryName self) seg
       = (if has_entry s (domain self) (repositoryName self) then 0 else 1)"
    "has_domain s (domain self)
       \<and> has_entry s (domain self) (npmUpstream self)
       \<and> has_entry s (domain self) (mavenUpstream self)
       \<and> has_entry s (domain self) (nugetUpstream self)
       \<and> has_entry s (domain self) (pypiUpstream self)
       \<and> has_entry s (domain self) (repositoryName self)
     \<longrightarrow> s' = s \<and> seg =
       [attempt registry_client (DescribeDomain (domain self)) s None,
        attempt registry_client (DescribeRepository (domain self) (npmUpstream self)) s None,
        attempt registry_client (DescribeRepository (domain self) (mavenUpstream self)) s None,
        attempt registry_client (DescribeRepository (domain self) (nugetUpstream self)) s None,
        attempt registry_client (DescribeRepository (domain self) (pypiUpstream self)) s None,
        attempt registry_client (DescribeRepository (domain self) (repositoryName self)) s None]"
proof -
  let ?d = "domain self"
  let ?npm = "\<lparr>opt_description = Some ''The upstream repository for NPM'',
      opt_external = Some ''public:npmjs'', opt_upstreams = None, opt_tags = None\<rparr>"
  let ?maven = "\<lparr>opt_description = Some ''The upstream repository for Maven'',
      opt_external = Some ''public:maven-central'', opt_upstreams = None, opt_tags = None\<rparr>"
  let ?nuget = "\<lparr>opt_description = Some ''The upstream repository for NuGet'',
      opt_external = Some ''public:nuget-org'', opt_upstreams = None, opt_tags = None\<rparr>"
  let ?pypi = "\<lparr>opt_description = Some ''The upstream repository for PyPI'',
      opt_external = Some ''public:pypi'', opt_upstreams = None, opt_tags = None\<rparr>"
  obtain s0 g0 where r0: "ensureDomain (spy registry_client) self (s, tr) = (Inr (), (s0, tr @ g0))"
    and c0: "reg_faults s0 = []" and d0: "has_domain s0 ?d"
    and e0: "\<forall>m. has_entry s0 ?d m = has_entry s ?d m"
    and n0: "\<forall>m. creations m g0 = 0"
    and p0: "has_domain s ?d \<longrightarrow>
       s0 = s \<and> g0 = [attempt registry_client (DescribeDomain ?d) s None]"
    by (rule ensureDomain_step [OF calm])
  obtain s1 g1 where r1: "ensureRepository (spy registry_client) self (npmUpstream self) ?npm
        (s0, tr @ g0) = (Inr (), (s1, (tr @ g0) @ g1))"
    and c1: "reg_faults s1 = []" and d1: "has_domain s1 ?d"
    and e1: "\<forall>m. has_entry s1 ?d m = (has_entry s0 ?d m \<or> m = npmUpstream self)"
    and n1: "\<forall>m. creations m g1
        = (if m = npmUpstream self \<and> \<not> has_entry s0 ?d (npmUpstream self) then 1 else 0)"
    and p1: "has_entry s0 ?d (npmUpstream self) \<longrightarrow> s1 = s0
        \<and> g1 = [attempt registry_client (DescribeRepository ?d (npmUpstream self)) s0 None]"
    by (rule ensureRepository_step [OF c0 d0, where options = ?npm]) simp
  obtain s2 g2 where r2: "ensureRepository (spy registry_client) self (mavenUpstream self) ?maven
        (s1, (tr @ g0) @ g1) = (Inr (), (s2, ((tr @ g0) @ g1) @ g2))"
    and c2: "reg_faults s2 = []" and d2: "has_domain s2 ?d"
    and e2: "\<forall>m. has_entry s2 ?d m = (has_entry s1 ?d m \<or> m = mavenUpstream self)"
    and n2: "\<forall>m. creations m g2
        = (if m = mavenUpstream self \<and> \<not> has_entry s1 ?d (mavenUpstream self) then 1 else 0)"
    and p2: "has_entry s1 ?d (mavenUpstream self) \<longrightarrow> s2 = s1
        \<and> g2 = [attempt registry_client (DescribeRepository ?d (mavenUpstream self)) s1 None]"
    by (rule ensureRepository_step [OF c1 d1, where options = ?maven]) simp
  obtain s3 g3 where r3: "ensureRepository (spy registry_client) self (nugetUpstream self) ?nuget
        (s2, ((tr @ g0) @ g1) @ g2) = (Inr (), (s3, (((tr @ g0) @ g1) @ g2) @ g3))"
    and c3: "reg_faults s3 = []" and d3: "has_domain s3 ?d"
    and e3: "\<forall>m. has_entry s3 ?d m = (has_entry s2 ?d m \<or> m = nugetUpstream self)"
    and n3: "\<forall>m. creations m g3
        = (if m = nugetUpstream self \<and> \<not> has_entry s2 ?d (nugetUpstream self) then 1 else 0)"
    and p3: "has_entry s2 ?d (nugetUpstream self) \<longrightarrow> s3 = s2
        \<and> g3 = [attempt registry_client (DescribeRepository ?d (nugetUpstream self)) s2 None]"
    by (rule ensureRepository_step [OF c2 d2, where options = ?nuget]) simp
  obtain s4 g4 where r4: "ensureRepository (spy registry_client) self (pypiUpstream self) ?pypi
        (s3, (((tr @ g0) @ g1) @ g2) @ g3) = (Inr (), (s4, ((((tr @ g0) @ g1) @ g2) @ g3) @ g4))"
    and c4: "reg_faults s4 = []" and d4: "has_domain s4 ?d"
    and e4: "\<forall>m. has_entry s4 ?d m = (has_entry s3 ?d m \<or> m = pypiUpstream self)"
    and n4: "\<forall>m. creations m g4
        = (if m = pypiUpstream self \<and> \<not> has_entry s3 ?d (pypiUpstream self) then 1 else 0)"
    and p4: "has_entry s3 ?d (pypiUpstream self) \<longrightarrow> s4 = s3
        \<and> g4 = [attempt registry_client (DescribeRepository ?d (pypiUpstream self)) s3 None]"
    by (rule ensureRepository_step [OF c3 d3, where options = ?pypi]) simp
  let ?tr4 = "((((tr @ g0) @ g1) @ g2) @ g3) @ g4"
  let ?box = "\<lparr>opt_description = Some ''Testing repository'', opt_external = None,
      opt_upstreams = Some [npmUpstream self, pypiUpstream self, nugetUpstream self,
                            mavenUpstream self],
      opt_tags = Some [(COLLECT_BY_TAG,
        numberToString (dateNow (spy registry_client) (s4, ?tr4) + REPO_LIFETIME_MS))]\<rparr>"
  have ups: "\<forall>u \<in> set (case opt_upstreams ?box of None \<Rightarrow> [] | Some us \<Rightarrow> us).
      has_entry s4 ?d u"
    using e1 e2 e3 e4 by simp
  obtain s5 g5 where r5: "ensureRepository (spy registry_client) self (repositoryName self) ?box
        (s4, ?tr4) = (Inr (), (s5, ?tr4 @ g5))"
    and c5: "reg_faults s5 = []" and d5: "has_domain s5 ?d"
    and e5: "\<forall>m. has_entry s5 ?d m = (has_entry s4 ?d m \<or> m = repositoryName self)"
    and n5: "\<forall>m. creations m g5
        = (if m = repositoryName self \<and> \<not> has_entry s4 ?d (repositoryName self) then 1 else 0)"
    and p5: "has_entry s4 ?d (repositoryName self) \<longrightarrow> s5 = s4
        \<and> g5 = [attempt registry_client (DescribeRepository ?d (repositoryName self)) s4 None]"
    by (rule ensureRepository_step [OF c4 d4 ups])
  have run: "prepare (spy registry_client) self (s, tr)
      = (Inr (), (s5, tr @ (g0 @ g1 @ g2 @ g3 @ g4 @ g5)))"
    by (simp add: prepare_def ensureUpstreams_def bind_io_def r0 r1 r2 r3 r4 r5 del: append_assoc)
  have names: "npmUpstream self \<noteq> mavenUpstream self" "npmUpstream self \<noteq> nugetUpstream self"
    "npmUpstream self \<noteq> pypiUpstream self" "mavenUpstream self \<noteq> nugetUpstream self"
    "mavenUpstream self \<noteq> pypiUpstream self" "nugetUpstream self \<noteq> pypiUpstream self"
    by (simp_all add: npmUpstream_def mavenUpstream_def nugetUpstream_def pypiUpstream_def)
  have f1: "has_entry s0 ?d (npmUpstream self) = has_entry s ?d (npmUpstream self)"
    by (simp add: e0)
  have f2: "has_entry s1 ?d (mavenUpstream self) = has_entry s ?d (mavenUpstream self)"
    using names by (simp add: e0 e1)
  have f3: "has_entry s2 ?d (nugetUpstream self) = has_entry s ?d (nugetUpstream self)"
    using names by (simp add: e0 e1 e2)
  have f4: "has_entry s3 ?d (pypiUpstream self) = has_entry s ?d (pypiUpstream self)"
    using names by (simp add: e0 e1 e2 e3)
  have f5: "has_entry s4 ?d m =
      (has_entry s ?d m \<or> m = npmUpstream self \<or> m = mavenUpstream self
       \<or> m = nugetUpstream self \<or> m = pypiUpstream self)" for m
    by (simp add: e0 e1 e2 e3 e4)
  have entries: "\<forall>m. has_entry s5 ?d m =
       (has_entry s ?d m
        \<or> m \<in> {npmUpstream self, mavenUpstream self, nugetUpstream self, pypiUpstream self,
                 repositoryName self})"
    by (auto simp: e5 f5)
  let ?N = "repositoryName self"
  have sum: "creations ?N (g0 @ g1 @ g2 @ g3 @ g4 @ g5) =
      (if ?N = npmUpstream self \<and> \<not> has_entry s ?d (npmUpstream self) then 1 else 0)
    + ((if ?N = mavenUpstream self \<and> \<not> has_entry s ?d (mavenUpstream self) then 1 else 0)
    + ((if ?N = nugetUpstream self \<and> \<not> has_entry s ?d (nugetUpstream self) then 1 else 0)
    + ((if ?N = pypiUpstream self \<and> \<not> has_entry s ?d (pypiUpstream self) then 1 else 0)
    + (if \<not> has_entry s4 ?d ?N then 1 else 0))))"
    by (simp add: n0 n1 n2 n3 n4 n5 f1 f2 f3 f4)
  define k where "k = creations ?N (g0 @ g1 @ g2 @ g3 @ g4 @ g5)"
  define H where "H = has_entry s ?d ?N"
  define c1 where "c1 = (?N = npmUpstream self)"
  define c2 where "c2 = (?N = mavenUpstream self)"
  define c3 where "c3 = (?N = nugetUpstream self)"
  define c4 where "c4 = (?N = pypiUpstream self)"
  have q1: "(?N = npmUpstream self \<and> \<not> has_entry s ?d (npmUpstream self)) = (c1 \<and> \<not> H)"
    unfolding c1_def H_def by auto
  have q2: "(?N = mavenUpstream self \<and> \<not> has_entry s ?d (mavenUpstream self)) = (c2 \<and> \<not> H)"
    unfolding c2_def H_def by auto
  have q3: "(?N = nugetUpstream self \<and> \<not> has_entry s ?d (nugetUpstream self)) = (c3 \<and> \<not> H)"
    unfolding c3_def H_def by auto
  have q4: "(?N = pypiUpstream self \<and> \<not> has_entry s ?d (pypiUpstream self)) = (c4 \<and> \<not> H)"
    unfolding c4_def H_def by auto
  have q5: "(\<not> has_entry s4 ?d ?N) = (\<not> (H \<or> c1 \<or> c2 \<or> c3 \<or> c4))"
    unfolding c1_def c2_def c3_def c4_def H_def by (simp only: f5 [of ?N])
  have k: "k = (if c1 \<and> \<not> H then 1 else 0) + ((if c2 \<and> \<not> H then 1 else 0)
      + ((if c3 \<and> \<not> H then 1 else 0) + ((if c4 \<and> \<not> H then 1 else 0)
      + (if \<not> (H \<or> c1 \<or> c2 \<or> c3 \<or> c4) then 1 else 0))))"
    unfolding k_def using sum by (simp only: q1 q2 q3 q4 q5)
  have excl: "\<not> (c1 \<and> c2)" "\<not> (c1 \<and> c3)" "\<not> (c1 \<and> c4)" "\<not> (c2 \<and> c3)" "\<not> (c2 \<and> c4)"
    "\<not> (c3 \<and> c4)"
    unfolding c1_def c2_def c3_def c4_def using names by auto
  have "k = (if H then 0 else 1)"
    using excl unfolding k
    by (cases H; cases c1; cases c2; cases c3; cases c4) simp_all
  then have count: "creations ?N (g0 @ g1 @ g2 @ g3 @ g4 @ g5)
       = (if has_entry s ?d ?N then 0 else 1)"
    unfolding k_def H_def .
  have idle: "has_domain s ?d
       \<and> has_entry s ?d (npmUpstream self)
       \<and> has_entry s ?d (mavenUpstream self)
       \<and> has_entry s ?d (nugetUpstream self)
       \<and> has_entry s ?d (pypiUpstream self)
       \<and> has_entry s ?d (repositoryName self)
     \<longrightarrow> s5 = s \<and> g0 @ g1 @ g2 @ g3 @ g4 @ g5 =
       [attempt registry_client (DescribeDomain ?d) s None,
        attempt registry_client (DescribeRepository ?d (npmUpstream self)) s None,
        attempt registry_client (DescribeRepository ?d (mavenUpstream self)) s None,
        attempt registry_client (DescribeRepository ?d (nugetUpstream self)) s None,
        attempt registry_client (DescribeRepository ?d (pypiUpstream self)) s None,
        attempt registry_client (DescribeRepository ?d (repositoryName self)) s None]"
  proof
    assume all: "has_domain s ?d
       \<and> has_entry s ?d (npmUpstream self)
       \<and> has_entry s ?d (mavenUpstream self)
       \<and> has_entry s ?d (nugetUpstream self)
       \<and> has_entry s ?d (pypiUpstream self)
       \<and> has_entry s ?d (repositoryName self)"
    from all p0 have a0: "s0 = s" "g0 = [attempt registry_client (DescribeDomain ?d) s None]"
      by simp_all
    from all p1 f1 have a1: "s1 = s0"
      "g1 = [attempt registry_client (DescribeRepository ?d (npmUpstream self)) s0 None]"
      by simp_all
    from all p2 f2 have a2: "s2 = s1"
      "g2 = [attempt registry_client (DescribeRepository ?d (mavenUpstream self)) s1 None]"
      by simp_all
    from all p3 f3 have a3: "s3 = s2"
      "g3 = [attempt registry_client (DescribeRepository ?d (nugetUpstream self)) s2 None]"
      by simp_all
    from all p4 f4 have a4: "s4 = s3"
      "g4 = [attempt registry_client (DescribeRepository ?d (pypiUpstream self)) s3 None]"
      by simp_all
    from all p5 f5 [of ?N] have a5: "s5 = s4"
      "g5 = [attempt registry_client (DescribeRepository ?d ?N) s4 None]"
      by simp_all
    show "s5 = s \<and> g0 @ g1 @ g2 @ g3 @ g4 @ g5 =
       [attempt registry_client (DescribeDomain ?d) s None,
        attempt registry_client (DescribeRepository ?d (npmUpstream self)) s None,
        attempt registry_client (DescribeRepository ?d (mavenUpstream self)) s None,
        attempt registry_client (DescribeRepository ?d (nugetUpstream self)) s None,
        attempt registry_client (DescribeRepository ?d (pypiUpstream self)) s None,
        attempt registry_client (DescribeRepository ?d (repositoryName self)) s None]"
      by (simp add: a0 a1 a2 a3 a4 a5)
  qed
  from that [OF run c5 d5 entries count idle] show ?thesis .
qed

text \<open>
  Claim C2. On the reference registry, with no injected rejection and no repository of
  the sandbox's name recorded: \<open>prepare\<close> succeeds twice in a row; the log of both runs
  holds exactly one \<^verbatim>\<open>createRepository\<close> call for that name, made by the first; and the
  second run consists of the six probes, all of which succeed, and leaves the registry
  unchanged.
\<close>

theorem provisioning_idempotent:
  assumes calm: "reg_faults s = []"
    and absent: "\<not> has_entry s (domain self) (repositoryName self)"
  shows "\<exists>s1 tr1 tr2.
       prepare (spy registry_client) self (s, []) = (Inr (), (s1, tr1))
     \<and> prepare (spy registry_client) self (s1, tr1) = (Inr (), (s1, tr1 @ tr2))
     \<and> creations (repositoryName self) tr1 = 1
     \<and> creations (repositoryName self) (tr1 @ tr2) = 1
     \<and> tr2 =
         [attempt registry_client (DescribeDomain ''test-cdk'') s1 None,
          attempt registry_client (DescribeRepository ''test-cdk'' ''npm-upstream'') s1 None,
          attempt registry_client (DescribeRepository ''test-cdk'' ''maven-upstream'') s1 None,
          attempt registry_client (DescribeRepository ''test-cdk'' ''nuget-upstream'') s1 None,
          attempt registry_client (DescribeRepository ''test-cdk'' ''pypi-upstream'') s1 None,
          attempt registry_client (DescribeRepository ''test-cdk'' (repositoryName self)) s1 None]"
proof -
  let ?d = "domain self" and ?N = "repositoryName self"
  obtain s1 g1 where r1: "prepare (spy registry_client) self (s, []) = (Inr (), (s1, [] @ g1))"
    and c1: "reg_faults s1 = []" and d1: "has_domain s1 ?d"
    and e1: "\<forall>m. has_entry s1 ?d m =
       (has_entry s ?d m
        \<or> m \<in> {npmUpstream self, mavenUpstream self, nugetUpstream self, pypiUpstream self, ?N})"
    and n1: "creations ?N g1 = (if has_entry s ?d ?N then 0 else 1)"
    by (rule prepare_step [OF calm])
  obtain s2 g2 where r2: "prepare (spy registry_client) self (s1, g1) = (Inr (), (s2, g1 @ g2))"
    and n2: "creations ?N g2 = (if has_entry s1 ?d ?N then 0 else 1)"
    and p2: "has_domain s1 ?d
       \<and> has_entry s1 ?d (npmUpstream self)
       \<and> has_entry s1 ?d (mavenUpstream self)
       \<and> has_entry s1 ?d (nugetUpstream self)
       \<and> has_entry s1 ?d (pypiUpstream self)
       \<and> has_entry s1 ?d ?N
     \<longrightarrow> s2 = s1 \<and> g2 =
       [attempt registry_client (DescribeDomain ?d) s1 None,
        attempt registry_client (DescribeRepository ?d (npmUpstream self)) s1 None,
        attempt registry_client (DescribeRepository ?d (mavenUpstream self)) s1 None,
        attempt registry_client (DescribeRepository ?d (nugetUpstream self)) s1 None,
        attempt registry_client (DescribeRepository ?d (pypiUpstream self)) s1 None,
        attempt registry_client (DescribeRepository ?d ?N) s1 None]"
    by (rule prepare_step [OF c1])
  from e1 have all: "has_entry s1 ?d (npmUpstream self)" "has_entry s1 ?d (mavenUpstream self)"
    "has_entry s1 ?d (nugetUpstream self)" "has_entry s1 ?d (pypiUpstream self)"
    "has_entry s1 ?d ?N"
    by simp_all
  from p2 d1 all have same: "s2 = s1"
    and probes: "g2 =
       [attempt registry_client (DescribeDomain ?d) s1 None,
        attempt registry_client (DescribeRepository ?d (npmUpstream self)) s1 None,
        attempt registry_client (DescribeRepository ?d (mavenUpstream self)) s1 None,
        attempt registry_client (DescribeRepository ?d (nugetUpstream self)) s1 None,
        attempt registry_client (DescribeRepository ?d (pypiUpstream self)) s1 None,
        attempt registry_client (DescribeRepository ?d ?N) s1 None]"
    by simp_all
  from n1 absent have one: "creations ?N g1 = 1" by simp
  from n2 all have none: "creations ?N g2 = 0" by simp
  from r1 have first: "prepare (spy registry_client) self (s, []) = (Inr (), (s1, g1))" by simp
  from r2 same have second: "prepare (spy registry_client) self (s1, g1) = (Inr (), (s1, g1 @ g2))"
    by simp
  from one none have total: "creations ?N (g1 @ g2) = 1" by simp
  from probes have shape: "g2 =
         [attempt registry_client (DescribeDomain ''test-cdk'') s1 None,
          attempt registry_client (DescribeRepository ''test-cdk'' ''npm-upstream'') s1 None,
          attempt registry_client (DescribeRepository ''test-cdk'' ''maven-upstream'') s1 None,
          attempt registry_client (DescribeRepository ''test-cdk'' ''nuget-upstream'') s1 None,
          attempt registry_client (DescribeRepository ''test-cdk'' ''pypi-upstream'') s1 None,
          attempt registry_client (DescribeRepository ''test-cdk'' ?N) s1 None]"
    by (simp add: domain_def DEFAULT_DOMAIN_def npmUpstream_def mavenUpstream_def
        nugetUpstream_def pypiUpstream_def)
  from first second one total shape show ?thesis by blast
qed

text \<open>The theorem at the sandbox \<open>ghost\<close> in the empty registry.\<close>

theorem provisioning_idempotent_witness:
  "creations ''test-ghost'' (snd (snd (prepare (spy registry_client) ghost (w_empty, [])))) = 1
   \<and> fst (prepare (spy registry_client) ghost
          (snd (prepare (spy registry_client) ghost (w_empty, [])))) = Inr ()
   \<and> creations ''test-ghost'' (snd (snd (prepare (spy registry_client) ghost
          (snd (prepare (spy registry_client) ghost (w_empty, [])))))) = 1"
proof -
  have calm: "reg_faults w_empty = []"
    by (simp add: w_empty_def)
  have absent: "\<not> has_entry w_empty (domain ghost) (repositoryName ghost)"
    by (simp add: has_entry_def w_empty_def)
  from provisioning_idempotent [OF calm absent] obtain s1 tr1 tr2
    where "prepare (spy registry_client) ghost (w_empty, []) = (Inr (), (s1, tr1))"
      and "prepare (spy registry_client) ghost (s1, tr1) = (Inr (), (s1, tr1 @ tr2))"
      and "creations (repositoryName ghost) tr1 = 1"
      and "creations (repositoryName ghost) (tr1 @ tr2) = 1"
    by blast
  then show ?thesis by (simp add: ghost_def)
qed

end
